theory Spec2Isabelle
  imports Main "HOL-Library.Multiset" "HOL-Library.Word"
begin

section \<open>Strings and paths\<close>

text \<open>
  Go's \<^verbatim>\<open>strings.Split(s, sep)\<close> for a one-byte separator: the pieces between the
  separators, so that the empty string gives one empty piece and a trailing separator
  gives a last empty piece.
\<close>

fun splitOn :: "char \<Rightarrow> string \<Rightarrow> string list" where
  "splitOn c [] = [[]]"
| "splitOn c (x # xs) =
     (if x = c then [] # splitOn c xs
      else (case splitOn c xs of
              [] \<Rightarrow> [[x]]
            | w # ws \<Rightarrow> (x # w) # ws))"

text \<open>\<^verbatim>\<open>strings.Join(elems, sep)\<close>.\<close>

fun joinWith :: "string \<Rightarrow> string list \<Rightarrow> string" where
  "joinWith sep [] = []"
| "joinWith sep [x] = x"
| "joinWith sep (x # y # ys) = x @ sep @ joinWith sep (y # ys)"

text \<open>
  \<^verbatim>\<open>filepath.Clean\<close> on a Unix path (separator \<^verbatim>\<open>/\<close>, no volume name): empty and
  \<^verbatim>\<open>.\<close> elements are dropped, an inner \<^verbatim>\<open>..\<close> removes the element before it, a
  \<^verbatim>\<open>..\<close> at the root is dropped, and the empty result is \<^verbatim>\<open>.\<close>. The stack of
  elements kept so far is held in reverse.
\<close>

fun cleanElems :: "bool \<Rightarrow> string list \<Rightarrow> string list \<Rightarrow> string list" where
  "cleanElems rooted [] stack = rev stack"
| "cleanElems rooted (e # es) stack =
     (if e = [] \<or> e = ''.'' then cleanElems rooted es stack
      else if e = ''..'' then
        (case stack of
           [] \<Rightarrow> if rooted then cleanElems rooted es [] else cleanElems rooted es [e]
         | t # ts \<Rightarrow> if t = ''..'' then cleanElems rooted es (e # stack)
                    else cleanElems rooted es ts)
      else cleanElems rooted es (e # stack))"

definition Clean :: "string \<Rightarrow> string" where
  "Clean path =
     (let rooted = (path \<noteq> [] \<and> hd path = CHR ''/'');
          out = (if rooted then ''/'' else []) @
                joinWith ''/'' (cleanElems rooted (splitOn CHR ''/'' path) [])
      in if out = [] then ''.'' else out)"

text \<open>
  \<^verbatim>\<open>filepath.Dir\<close>: everything up to and including the last separator, cleaned.
\<close>

definition Dir :: "string \<Rightarrow> string" where
  "Dir path = Clean (rev (dropWhile (\<lambda>c. c \<noteq> CHR ''/'') (rev path)))"

text \<open>
  \<^verbatim>\<open>filepath.Base\<close>: the last element of the path, after trailing separators are
  stripped; \<^verbatim>\<open>.\<close> for the empty path and \<^verbatim>\<open>/\<close> for a path of separators only.
\<close>

definition Base :: "string \<Rightarrow> string" where
  "Base path =
     (if path = [] then ''.''
      else (let stripped = rev (dropWhile (\<lambda>c. c = CHR ''/'') (rev path));
                lastElem = rev (takeWhile (\<lambda>c. c \<noteq> CHR ''/'') (rev stripped))
            in if lastElem = [] then ''/'' else lastElem))"

text \<open>
  \<^verbatim>\<open>filepath.Join\<close>: empty elements are ignored, the rest is joined with the separator
  and cleaned; the result is empty when every element is.
\<close>

definition Join :: "string list \<Rightarrow> string" where
  "Join elems =
     (let nonEmpty = filter (\<lambda>e. e \<noteq> []) elems
      in if nonEmpty = [] then [] else Clean (joinWith ''/'' nonEmpty))"

section \<open>Base-directory resolver\<close>

text \<open>
  \<^verbatim>\<open>GetBaseDirForFilePaths\<close>. The inner loop counts the leading \<^verbatim>\<open>..\<close> segments of one
  path and walks \<^verbatim>\<open>currentDir\<close> up once for each, stopping at the first other segment
  (\<^verbatim>\<open>break\<close>). The outer loop keeps the deepest climb seen so far in
  \<^verbatim>\<open>(baseDir, dirsUp)\<close>. \<^verbatim>\<open>ProjectRoot\<close> is a package variable, passed here as an
  argument. The counters \<^verbatim>\<open>n\<close> and \<^verbatim>\<open>dirsUp\<close> count segments of one path and
  are natural numbers.
\<close>

fun countLeadingUp :: "string list \<Rightarrow> nat \<Rightarrow> string \<Rightarrow> nat \<times> string" where
  "countLeadingUp [] n currentDir = (n, currentDir)"
| "countLeadingUp (p # ps) n currentDir =
     (if p = ''..'' then countLeadingUp ps (n + 1) (Dir currentDir)
      else (n, currentDir))"

fun baseDirLoop :: "string \<Rightarrow> string list \<Rightarrow> string \<times> nat \<Rightarrow> string \<times> nat" where
  "baseDirLoop ProjectRoot [] st = st"
| "baseDirLoop ProjectRoot (path # paths) (baseDir, dirsUp) =
     (let pathSplit = splitOn CHR ''/'' path;
          (n, currentDir) = countLeadingUp pathSplit 0 ProjectRoot
      in if n > dirsUp then baseDirLoop ProjectRoot paths (currentDir, n)
         else baseDirLoop ProjectRoot paths (baseDir, dirsUp))"

definition GetBaseDirForFilePaths :: "string \<Rightarrow> string list \<Rightarrow> string" where
  "GetBaseDirForFilePaths ProjectRoot paths =
     fst (baseDirLoop ProjectRoot paths (ProjectRoot, 0))"

text \<open>
  The resolver as the specification words it: the number of consecutive leading
  \<^verbatim>\<open>..\<close> segments of a path, the maximum of that number over the input, and the
  ancestor reached by walking up that many times.
\<close>

definition leadingUps :: "string \<Rightarrow> nat" where
  "leadingUps path = length (takeWhile (\<lambda>s. s = ''..'') (splitOn CHR ''/'' path))"

definition maxLeadingUps :: "string list \<Rightarrow> nat" where
  "maxLeadingUps paths = foldr max (map leadingUps paths) 0"

definition climb :: "nat \<Rightarrow> string \<Rightarrow> string" where
  "climb k dir = (Dir ^^ k) dir"

section \<open>Context ingestion\<close>

text \<open>
  \<^verbatim>\<open>MustLoadContext\<close> in \<^verbatim>\<open>cli/lib/context_load.go\<close>. The token counters are Go
  \<^verbatim>\<open>int\<close>s: 64-bit words whose addition wraps around and whose comparison is signed.

  The collaborators that are not part of this file of the repository (tokenizer, naming
  service, URL fetch, path expansion, file reads, hashing, persistence) are the fields of
  an environment record; a failed call is \<open>None\<close> (or \<open>False\<close> for a write).
\<close>

type_synonym goInt = "64 word"

datatype ContextType =
  ContextNoteType | ContextPipedDataType | ContextFileType
| ContextDirectoryTreeType | ContextURLType

record ModelContextPart =
  Type :: ContextType
  Name :: string
  FilePath :: string
  Url :: string
  Body :: string
  Sha :: string
  NumTokens :: goInt
  AddedAt :: string
  UpdatedAt :: string

record PlanState =
  ContextTokens :: goInt
  ContextUpdatableTokens :: goInt

record LoadContextParams =
  Note :: string
  NamesOnly :: bool

text \<open>What \<^verbatim>\<open>os.Stdin\<close> is for the call: the stat and the read may fail.\<close>

datatype stdin = StdinStatFails | StdinTerminal | StdinPipeReadFails | StdinPipe string

record env =
  MaxContextTokens :: goInt
  GetPlanState :: "PlanState option"
  GetNumTokens :: "string \<Rightarrow> goInt option"
  ApiFileName :: "string \<Rightarrow> string option"
  GetFileNameWithoutExt :: "string \<Rightarrow> string"
  Stdin :: stdin
  IsValidURL :: "string \<Rightarrow> bool"
  ParseInputPaths :: "string list \<Rightarrow> string list option"
  ReadFile :: "string \<Rightarrow> string option"
  FetchURLContent :: "string \<Rightarrow> string option"
  SanitizeURL :: "string \<Rightarrow> string"
  Sha256Hex :: "string \<Rightarrow> string"
  StringTs :: string
  writeContextParts :: "ModelContextPart list \<Rightarrow> bool"
  SetPlanState :: "PlanState \<Rightarrow> bool"
  GitCommitContextUpdate :: bool

text \<open>Every \<^verbatim>\<open>os.Exit(1)\<close> of the function, by the message printed before it.\<close>

datatype exit =
  FailedGetPlanState
| FailedNumTokens
| TokensExceedMaximum goInt goInt
| FailedFileName
| FailedStatStdin
| FailedReadPipedData
| FailedParseInputPaths
| FailedReadFile string
| FailedFetchURL string
| NoContextLoaded
| FailedWriteContext
| FailedGitCommit

text \<open>
  The variables the goroutines share: the three counters guarded by
  \<^verbatim>\<open>totalTokensMutex\<close> and the list guarded by \<^verbatim>\<open>contextPartsMutex\<close>.
\<close>

record shared =
  totalTokens :: goInt
  tokensAdded :: goInt
  totalUpdatableTokens :: goInt
  contextParts :: "ModelContextPart list"

text \<open>One goroutine of the call, with the argument it was started with.\<close>

datatype job =
  NoteJob string | PipedDataJob string | DirectoryTreeJob string
| FileJob string | URLJob string

fun jobType :: "job \<Rightarrow> ContextType" where
  "jobType (NoteJob body) = ContextNoteType"
| "jobType (PipedDataJob body) = ContextPipedDataType"
| "jobType (DirectoryTreeJob inputFilePath) = ContextDirectoryTreeType"
| "jobType (FileJob path) = ContextFileType"
| "jobType (URLJob u) = ContextURLType"

text \<open>
  The section each goroutine runs while it holds \<^verbatim>\<open>totalTokensMutex\<close>, one equation
  per goroutine of the source (lines 68-81, 150-162, 239-252, 317-330, 379-391). The
  counters are updated first; the process exits when the new total exceeds the maximum,
  and the exit carries the shared state as it is at that moment.
\<close>

fun lockedAdd :: "ContextType \<Rightarrow> goInt \<Rightarrow> goInt \<Rightarrow> shared \<Rightarrow> (exit \<times> shared) + shared" where
  "lockedAdd ContextNoteType maxTokens numTokens sh =
     (let sh = sh\<lparr>totalTokens := totalTokens sh + numTokens\<rparr>;
          sh = sh\<lparr>tokensAdded := tokensAdded sh + numTokens\<rparr>
      in if maxTokens <s totalTokens sh
         then Inl (TokensExceedMaximum (totalTokens sh) maxTokens, sh) else Inr sh)"
| "lockedAdd ContextPipedDataType maxTokens numTokens sh =
     (let sh = sh\<lparr>totalTokens := totalTokens sh + numTokens\<rparr>;
          sh = sh\<lparr>tokensAdded := tokensAdded sh + numTokens\<rparr>
      in if maxTokens <s totalTokens sh
         then Inl (TokensExceedMaximum (totalTokens sh) maxTokens, sh) else Inr sh)"
| "lockedAdd ContextDirectoryTreeType maxTokens numTokens sh =
     (let sh = sh\<lparr>totalTokens := totalTokens sh + numTokens\<rparr>;
          sh = sh\<lparr>totalUpdatableTokens := totalUpdatableTokens sh + numTokens\<rparr>;
          sh = sh\<lparr>tokensAdded := tokensAdded sh + numTokens\<rparr>
      in if maxTokens <s totalTokens sh
         then Inl (TokensExceedMaximum (totalTokens sh) maxTokens, sh) else Inr sh)"
| "lockedAdd ContextFileType maxTokens numTokens sh =
     (let sh = sh\<lparr>totalTokens := totalTokens sh + numTokens\<rparr>;
          sh = sh\<lparr>tokensAdded := tokensAdded sh + numTokens\<rparr>;
          sh = sh\<lparr>totalUpdatableTokens := totalUpdatableTokens sh + numTokens\<rparr>
      in if maxTokens <s totalTokens sh
         then Inl (TokensExceedMaximum (totalTokens sh) maxTokens, sh) else Inr sh)"
| "lockedAdd ContextURLType maxTokens numTokens sh =
     (let sh = sh\<lparr>totalTokens := totalTokens sh + numTokens\<rparr>;
          sh = sh\<lparr>tokensAdded := tokensAdded sh + numTokens\<rparr>;
          sh = sh\<lparr>totalUpdatableTokens := totalUpdatableTokens sh + numTokens\<rparr>
      in if maxTokens <s totalTokens sh
         then Inl (TokensExceedMaximum (totalTokens sh) maxTokens, sh) else Inr sh)"

text \<open>
  What a goroutine does before it takes the lock: it obtains its body and the body's
  token count, and exits the process when a collaborator fails.
\<close>

fun prepare :: "env \<Rightarrow> job \<Rightarrow> exit + (string \<times> goInt)" where
  "prepare e (NoteJob body) =
     (case GetNumTokens e body of
        None \<Rightarrow> Inl FailedNumTokens
      | Some numTokens \<Rightarrow> Inr (body, numTokens))"
| "prepare e (PipedDataJob body) =
     (case GetNumTokens e body of
        None \<Rightarrow> Inl FailedNumTokens
      | Some numTokens \<Rightarrow> Inr (body, numTokens))"
| "prepare e (DirectoryTreeJob inputFilePath) =
     (case ParseInputPaths e [inputFilePath] of
        None \<Rightarrow> Inl FailedParseInputPaths
      | Some flattenedPaths \<Rightarrow>
          (let body = joinWith [CHR 0x0A] flattenedPaths
           in case GetNumTokens e body of
                None \<Rightarrow> Inl FailedNumTokens
              | Some numTokens \<Rightarrow> Inr (body, numTokens)))"
| "prepare e (FileJob path) =
     (case ReadFile e path of
        None \<Rightarrow> Inl (FailedReadFile path)
      | Some body \<Rightarrow>
          (case GetNumTokens e body of
             None \<Rightarrow> Inl FailedNumTokens
           | Some numTokens \<Rightarrow> Inr (body, numTokens)))"
| "prepare e (URLJob u) =
     (case FetchURLContent e u of
        None \<Rightarrow> Inl (FailedFetchURL u)
      | Some body \<Rightarrow>
          (case GetNumTokens e body of
             None \<Rightarrow> Inl FailedNumTokens
           | Some numTokens \<Rightarrow> Inr (body, numTokens)))"

text \<open>
  The display name of a URL part: the sanitized URL, cut to its first and last 20 bytes
  around an ellipsis (three bytes in UTF-8) when it is longer than 40 bytes.
\<close>

definition urlName :: "env \<Rightarrow> string \<Rightarrow> string" where
  "urlName e u =
     (let name = SanitizeURL e u
      in if length name > 40
         then take 20 name @ [CHR 0xE2, CHR 0x8B, CHR 0xAF] @ drop (length name - 20) name
         else name)"

text \<open>
  What a goroutine does after it has released the lock: it builds its part and appends
  it to \<^verbatim>\<open>contextParts\<close>. The note and piped-data goroutines ask the naming service
  first and exit when it fails. The directory-tree goroutine computes \<^verbatim>\<open>name\<close> from
  the last element of the path (lines 256-263) and then fills the part's \<^verbatim>\<open>Name\<close>
  from \<^verbatim>\<open>inputFilePath\<close> (line 267).
\<close>

fun complete :: "env \<Rightarrow> job \<Rightarrow> string \<Rightarrow> goInt \<Rightarrow> shared \<Rightarrow> (exit \<times> shared) + shared" where
  "complete e (NoteJob note) body numTokens sh =
     (case ApiFileName e body of
        None \<Rightarrow> Inl (FailedFileName, sh)
      | Some fileNameResp \<Rightarrow>
          (let fileName = GetFileNameWithoutExt e fileNameResp;
               ts = StringTs e;
               contextPart = \<lparr>Type = ContextNoteType, Name = fileName, FilePath = [],
                 Url = [], Body = body, Sha = Sha256Hex e body, NumTokens = numTokens,
                 AddedAt = ts, UpdatedAt = ts\<rparr>
           in Inr (sh\<lparr>contextParts := contextParts sh @ [contextPart]\<rparr>)))"
| "complete e (PipedDataJob pipedData) body numTokens sh =
     (case ApiFileName e body of
        None \<Rightarrow> Inl (FailedFileName, sh)
      | Some fileNameResp \<Rightarrow>
          (let fileName = GetFileNameWithoutExt e fileNameResp;
               ts = StringTs e;
               contextPart = \<lparr>Type = ContextPipedDataType, Name = fileName, FilePath = [],
                 Url = [], Body = body, Sha = Sha256Hex e body, NumTokens = numTokens,
                 AddedAt = ts, UpdatedAt = ts\<rparr>
           in Inr (sh\<lparr>contextParts := contextParts sh @ [contextPart]\<rparr>)))"
| "complete e (DirectoryTreeJob inputFilePath) body numTokens sh =
     (let ts = StringTs e;
          name = Base inputFilePath;
          name = (if name = ''.'' then ''cwd'' else name);
          name = (if name = ''..'' then ''parent'' else name);
          contextPart = \<lparr>Type = ContextDirectoryTreeType, Name = inputFilePath,
            FilePath = inputFilePath, Url = [], Body = body, Sha = Sha256Hex e body,
            NumTokens = numTokens, AddedAt = ts, UpdatedAt = ts\<rparr>
      in Inr (sh\<lparr>contextParts := contextParts sh @ [contextPart]\<rparr>))"
| "complete e (FileJob path) body numTokens sh =
     (let ts = StringTs e;
          contextPart = \<lparr>Type = ContextFileType, Name = path, FilePath = path, Url = [],
            Body = body, Sha = Sha256Hex e body, NumTokens = numTokens,
            AddedAt = ts, UpdatedAt = ts\<rparr>
      in Inr (sh\<lparr>contextParts := contextParts sh @ [contextPart]\<rparr>))"
| "complete e (URLJob u) body numTokens sh =
     (let ts = StringTs e;
          name = urlName e u;
          contextPart = \<lparr>Type = ContextURLType, Name = name, FilePath = [], Url = u,
            Body = body, Sha = Sha256Hex e body, NumTokens = numTokens,
            AddedAt = ts, UpdatedAt = ts\<rparr>
      in Inr (sh\<lparr>contextParts := contextParts sh @ [contextPart]\<rparr>))"

text \<open>One goroutine from start to end.\<close>

definition runJob :: "env \<Rightarrow> job \<Rightarrow> shared \<Rightarrow> (exit \<times> shared) + shared" where
  "runJob e j sh =
     (case prepare e j of
        Inl x \<Rightarrow> Inl (x, sh)
      | Inr (body, numTokens) \<Rightarrow>
          (case lockedAdd (jobType j) (MaxContextTokens e) numTokens sh of
             Inl x \<Rightarrow> Inl x
           | Inr sh' \<Rightarrow> complete e j body numTokens sh'))"

text \<open>
  The goroutines touch the shared state only inside their two locked sections, so a run
  of the call is a sequence of whole goroutines in the order in which they take
  \<^verbatim>\<open>totalTokensMutex\<close>; an \<^verbatim>\<open>os.Exit\<close> ends the run.
\<close>

fun runJobs :: "env \<Rightarrow> job list \<Rightarrow> shared \<Rightarrow> (exit \<times> shared) + shared" where
  "runJobs e [] sh = Inr sh"
| "runJobs e (j # js) sh =
     (case runJob e j sh of
        Inl x \<Rightarrow> Inl x
      | Inr sh' \<Rightarrow> runJobs e js sh')"

text \<open>
  The goroutines the main thread starts, in the order of the source: the note, the piped
  data, one per input path (names only) or one per flattened file path, one per URL.
\<close>

definition dispatch :: "env \<Rightarrow> string list \<Rightarrow> LoadContextParams \<Rightarrow> exit + job list" where
  "dispatch e resources params =
     (let noteJobs = (if Note params \<noteq> [] then [NoteJob (Note params)] else [])
      in case Stdin e of
           StdinStatFails \<Rightarrow> Inl FailedStatStdin
         | StdinPipeReadFails \<Rightarrow> Inl FailedReadPipedData
         | other \<Rightarrow>
            (let pipeJobs = (case other of
                               StdinPipe pipedData \<Rightarrow>
                                 if length pipedData > 0 then [PipedDataJob pipedData] else []
                             | _ \<Rightarrow> []);
                 inputUrls = filter (IsValidURL e) resources;
                 inputFilePaths = filter (\<lambda>r. \<not> IsValidURL e r) resources;
                 urlJobs = map URLJob inputUrls
             in if length inputFilePaths > 0 then
                  (if NamesOnly params
                   then Inr (noteJobs @ pipeJobs @ map DirectoryTreeJob inputFilePaths @ urlJobs)
                   else (case ParseInputPaths e inputFilePaths of
                           None \<Rightarrow> Inl FailedParseInputPaths
                         | Some flattenedPaths \<Rightarrow>
                             Inr (noteJobs @ pipeJobs @ map FileJob flattenedPaths @ urlJobs)))
                else Inr (noteJobs @ pipeJobs @ urlJobs)))"

text \<open>
  After \<^verbatim>\<open>wg.Wait()\<close>: exit when nothing was loaded, write the parts and the plan
  state, commit, and return \<^verbatim>\<open>(tokensAdded, totalTokens)\<close>. The plan state handed to
  \<^verbatim>\<open>SetPlanState\<close> is returned as a third component.
\<close>

definition finish :: "env \<Rightarrow> PlanState \<Rightarrow> shared \<Rightarrow> (exit \<times> shared) + (goInt \<times> goInt \<times> PlanState)" where
  "finish e planState sh =
     (if length (contextParts sh) = 0 then Inl (NoContextLoaded, sh)
      else (let planState = planState\<lparr>ContextTokens := totalTokens sh\<rparr>;
                planState = planState\<lparr>ContextUpdatableTokens := totalUpdatableTokens sh\<rparr>
            in if \<not> writeContextParts e (contextParts sh) \<or> \<not> SetPlanState e planState
               then Inl (FailedWriteContext, sh)
               else if \<not> GitCommitContextUpdate e then Inl (FailedGitCommit, sh)
               else Inr (tokensAdded sh, totalTokens sh, planState)))"

definition initShared :: "PlanState \<Rightarrow> shared" where
  "initShared planState =
     \<lparr>totalTokens = ContextTokens planState, tokensAdded = 0,
      totalUpdatableTokens = ContextUpdatableTokens planState, contextParts = []\<rparr>"

text \<open>
  The whole call. \<open>sched\<close> is the order in which the goroutines that were started take
  the lock; the scheduler is free to choose any permutation.
\<close>

definition MustLoadContext ::
  "env \<Rightarrow> (job list \<Rightarrow> job list) \<Rightarrow> string list \<Rightarrow> LoadContextParams
   \<Rightarrow> (exit \<times> shared) + (goInt \<times> goInt \<times> PlanState)" where
  "MustLoadContext e sched resources params =
     (case GetPlanState e of
        None \<Rightarrow> Inl (FailedGetPlanState, initShared \<lparr>ContextTokens = 0, ContextUpdatableTokens = 0\<rparr>)
      | Some planState \<Rightarrow>
          (case dispatch e resources params of
             Inl x \<Rightarrow> Inl (x, initShared planState)
           | Inr jobs \<Rightarrow>
               (case runJobs e (sched jobs) (initShared planState) of
                  Inl x \<Rightarrow> Inl x
                | Inr sh \<Rightarrow> finish e planState sh)))"

text \<open>The shared state at the end of a run of goroutines, whether they exited or not.\<close>

fun stateOf :: "(exit \<times> shared) + shared \<Rightarrow> shared" where
  "stateOf (Inl (x, sh)) = sh"
| "stateOf (Inr sh) = sh"



text \<open>The running total a call ends with, at its exit or at its return.\<close>

definition finalTotal :: "(exit \<times> shared) + (goInt \<times> goInt \<times> PlanState) \<Rightarrow> goInt" where
  "finalTotal r =
     (case r of Inl (x, sh) \<Rightarrow> totalTokens sh | Inr (added, tot, planState) \<Rightarrow> tot)"

text \<open>
  A small environment for concrete runs: an empty plan state, a file \<^verbatim>\<open>a\<close> whose
  content has 5 tokens and a file \<^verbatim>\<open>b\<close> whose content has 10 (any other text has
  1), a path expansion that returns its input, and collaborators that never fail.
\<close>

definition demoEnv :: "goInt \<Rightarrow> env" where
  "demoEnv maxTokens =
     \<lparr>MaxContextTokens = maxTokens,
      GetPlanState = Some \<lparr>ContextTokens = 0, ContextUpdatableTokens = 0\<rparr>,
      GetNumTokens = (\<lambda>body. Some (if body = ''12345'' then 5
                                    else if body = ''1234567890'' then 10 else 1)),
      ApiFileName = (\<lambda>body. Some ''note.txt''),
      GetFileNameWithoutExt = takeWhile (\<lambda>c. c \<noteq> CHR ''.''),
      Stdin = StdinTerminal,
      IsValidURL = (\<lambda>r. take 4 r = ''http''),
      ParseInputPaths = Some,
      ReadFile = (\<lambda>path. if path = ''a'' then Some ''12345''
                         else if path = ''b'' then Some ''1234567890'' else None),
      FetchURLContent = (\<lambda>u. Some ''page''),
      SanitizeURL = id,
      Sha256Hex = (\<lambda>body. ''sha''),
      StringTs = ''ts'',
      writeContextParts = (\<lambda>parts. True),
      SetPlanState = (\<lambda>planState. True),
      GitCommitContextUpdate = True\<rparr>"

definition fullContent :: LoadContextParams where
  "fullContent = \<lparr>Note = [], NamesOnly = False\<rparr>"

definition namesOnly :: LoadContextParams where
  "namesOnly = \<lparr>Note = [], NamesOnly = True\<rparr>"

section \<open>The file system as the resolver sees it\<close>

text \<open>
  A Go \<^verbatim>\<open>error\<close>: its message and whether \<^verbatim>\<open>os.IsPermission\<close> holds of it. An
  error made by \<^verbatim>\<open>fmt.Errorf\<close> is not a permission error.
\<close>

datatype error = Error (errMsg: string) (isPermission: bool)

definition Errorf :: "string \<Rightarrow> error" where
  "Errorf msg = Error msg False"

text \<open>The three outcomes of \<^verbatim>\<open>os.Stat\<close> the code tells apart.\<close>

datatype statResult = StatOk | StatNotExist | StatError error

record FileInfo =
  infoName :: string
  infoIsDir :: bool

text \<open>
  The tree under a walk root as \<^verbatim>\<open>filepath.Walk\<close> meets it. Every node carries the
  path the walk passes to its callback. A \<open>FileNode\<close> is an entry whose \<^verbatim>\<open>Lstat\<close>
  succeeds and that is not a directory; a \<open>DirNode\<close> has the error of reading its names,
  if any, and its children in lexical order; a \<open>BrokenNode\<close> is one whose
  \<^verbatim>\<open>Lstat\<close> fails, for which the callback gets a nil \<^verbatim>\<open>info\<close>.
\<close>

datatype node =
  FileNode string string
| DirNode string string "error option" "node list"
| BrokenNode string error

fun isDirNode :: "node \<Rightarrow> bool" where
  "isDirNode (DirNode path name err children) = True"
| "isDirNode n = False"

fun isBrokenNode :: "node \<Rightarrow> bool" where
  "isBrokenNode (BrokenNode path err) = True"
| "isBrokenNode n = False"

record fsys =
  development :: bool
  stat :: "string \<Rightarrow> statResult"
  readFile :: "string \<Rightarrow> error + string"
  unmarshalSettingsId :: "string \<Rightarrow> string option"
  compileIgnoreFile :: "string \<Rightarrow> error + (string \<Rightarrow> bool)"
  IsGitRepo :: "string \<Rightarrow> bool"
  gitLsFiles :: "string \<Rightarrow> error + string"
  gitLsFilesOthers :: "string \<Rightarrow> error + string"
  tree :: "string \<Rightarrow> node"
  Rel :: "string \<Rightarrow> string \<Rightarrow> error + string"

text \<open>
  What a walk callback returns: nil, \<^verbatim>\<open>filepath.SkipDir\<close>, another error, or it
  panics.
\<close>

datatype panic = NilPointerDereference | UnmarshalFailed

datatype ret = RetNil | RetSkipDir | RetErr error | RetPanic panic

text \<open>
  \<^verbatim>\<open>filepath.Walk\<close> with a callback that threads the variables it captures as a state.
  \<open>walk\<close> is the library's recursive \<^verbatim>\<open>walk\<close>: a non-directory gets one call; a
  directory gets one call with the error of reading its names, and is entered only when
  both that error and the callback's result are nil. \<open>walkNames\<close> is the loop over the
  names of a directory: an entry whose \<^verbatim>\<open>Lstat\<close> fails gets a call with nil
  \<^verbatim>\<open>info\<close>, and the loop goes on after nil or \<^verbatim>\<open>SkipDir\<close>; for the other
  entries a \<^verbatim>\<open>SkipDir\<close> from a directory is swallowed, and anything else that is
  not nil ends the loop.
\<close>

fun walk :: "(string \<Rightarrow> FileInfo option \<Rightarrow> error option \<Rightarrow> 's \<Rightarrow> ret \<times> 's) \<Rightarrow> node \<Rightarrow> 's \<Rightarrow> ret \<times> 's"
  and walkNames :: "(string \<Rightarrow> FileInfo option \<Rightarrow> error option \<Rightarrow> 's \<Rightarrow> ret \<times> 's) \<Rightarrow> node list \<Rightarrow> 's \<Rightarrow> ret \<times> 's"
where
  "walk walkFn (FileNode path name) s =
     walkFn path (Some \<lparr>infoName = name, infoIsDir = False\<rparr>) None s"
| "walk walkFn (BrokenNode path err) s = walkFn path None (Some err) s"
| "walk walkFn (DirNode path name err children) s =
     (case walkFn path (Some \<lparr>infoName = name, infoIsDir = True\<rparr>) err s of
        (err1, s') \<Rightarrow>
          if err \<noteq> None \<or> err1 \<noteq> RetNil then (err1, s')
          else walkNames walkFn children s')"
| "walkNames walkFn [] s = (RetNil, s)"
| "walkNames walkFn (child # rest) s =
     (case walk walkFn child s of
        (err, s') \<Rightarrow>
          if err = RetNil then walkNames walkFn rest s'
          else if err = RetSkipDir \<and> (isDirNode child \<or> isBrokenNode child)
          then walkNames walkFn rest s'
          else (err, s'))"

definition Walk :: "(string \<Rightarrow> FileInfo option \<Rightarrow> error option \<Rightarrow> 's \<Rightarrow> ret \<times> 's) \<Rightarrow> node \<Rightarrow> 's \<Rightarrow> ret \<times> 's" where
  "Walk fn root s =
     (case walk fn root s of
        (err, s') \<Rightarrow> (if err = RetSkipDir then RetNil else err, s'))"

section \<open>Path enumerator\<close>

text \<open>
  \<^verbatim>\<open>GetPlandexIgnore\<close>: the compiled matcher of \<^verbatim>\<open>dir/.plandexignore\<close>, or no matcher
  when the file does not exist.
\<close>

definition GetPlandexIgnore :: "fsys \<Rightarrow> string \<Rightarrow> error + (string \<Rightarrow> bool) option" where
  "GetPlandexIgnore fs dir =
     (let ignorePath = Join [dir, ''.plandexignore'']
      in case stat fs ignorePath of
           StatOk \<Rightarrow>
             (case compileIgnoreFile fs ignorePath of
                Inl err \<Rightarrow> Inl (Errorf (''error reading .plandexignore file: '' @ errMsg err))
              | Inr ignored \<Rightarrow> Inr (Some ignored))
         | StatNotExist \<Rightarrow> Inr None
         | StatError err \<Rightarrow>
             Inl (Errorf (''error checking for .plandexignore file: '' @ errMsg err)))"

text \<open>The test \<^verbatim>\<open>ignored != nil && ignored.MatchesPath(p)\<close>.\<close>

definition matchesIgnored :: "(string \<Rightarrow> bool) option \<Rightarrow> string \<Rightarrow> bool" where
  "matchesIgnored ignored p = (case ignored of None \<Rightarrow> False | Some m \<Rightarrow> m p)"

text \<open>The three maps \<^verbatim>\<open>GetPaths\<close> fills.\<close>

record pathMaps =
  paths :: "string \<rightharpoonup> bool"
  ignoredPaths :: "string \<rightharpoonup> bool"
  dirs :: "string \<rightharpoonup> bool"

definition emptyMaps :: pathMaps where
  "emptyMaps = \<lparr>paths = Map.empty, ignoredPaths = Map.empty, dirs = Map.empty\<rparr>"

text \<open>
  The loop over the lines of a git listing, the same in both listing goroutines: the
  line is joined to \<^verbatim>\<open>baseDir\<close>, made relative to \<^verbatim>\<open>currentDir\<close>, and put into
  \<^verbatim>\<open>ignoredPaths\<close> or into \<^verbatim>\<open>paths\<close>.
\<close>

fun addListed :: "fsys \<Rightarrow> (string \<Rightarrow> bool) option \<Rightarrow> string \<Rightarrow> string \<Rightarrow> string list \<Rightarrow> pathMaps \<Rightarrow> error + pathMaps" where
  "addListed fs ignored baseDir currentDir [] st = Inr st"
| "addListed fs ignored baseDir currentDir (file # files) st =
     (let absFile = Join [baseDir, file]
      in case Rel fs currentDir absFile of
           Inl err \<Rightarrow> Inl (Errorf (''error getting relative path: '' @ errMsg err))
         | Inr relFile \<Rightarrow>
             if matchesIgnored ignored relFile
             then addListed fs ignored baseDir currentDir files
                    (st\<lparr>ignoredPaths := (ignoredPaths st)(relFile \<mapsto> True)\<rparr>)
             else addListed fs ignored baseDir currentDir files
                    (st\<lparr>paths := (paths st)(relFile \<mapsto> True)\<rparr>))"

definition trackedFiles :: "fsys \<Rightarrow> (string \<Rightarrow> bool) option \<Rightarrow> string \<Rightarrow> string \<Rightarrow> pathMaps \<Rightarrow> error + pathMaps" where
  "trackedFiles fs ignored baseDir currentDir st =
     (case gitLsFiles fs baseDir of
        Inl err \<Rightarrow> Inl (Errorf (''error getting files in git repo: '' @ errMsg err))
      | Inr out \<Rightarrow> addListed fs ignored baseDir currentDir (splitOn (CHR 0x0A) out) st)"

definition untrackedFiles :: "fsys \<Rightarrow> (string \<Rightarrow> bool) option \<Rightarrow> string \<Rightarrow> string \<Rightarrow> pathMaps \<Rightarrow> error + pathMaps" where
  "untrackedFiles fs ignored baseDir currentDir st =
     (case gitLsFilesOthers fs baseDir of
        Inl err \<Rightarrow> Inl (Errorf (''error getting untracked files in git repo: '' @ errMsg err))
      | Inr out \<Rightarrow> addListed fs ignored baseDir currentDir (splitOn (CHR 0x0A) out) st)"

text \<open>
  The callback of the raw walk (lines 230-263). A walk error is returned as it is. A
  directory that matches is put into \<^verbatim>\<open>ignoredPaths\<close> and skipped, another directory
  goes into \<^verbatim>\<open>dirs\<close>. A file is looked at only when \<^verbatim>\<open>isGitRepo\<close> is false, and
  then goes into \<^verbatim>\<open>ignoredPaths\<close> or \<^verbatim>\<open>paths\<close>.
\<close>

definition pathsWalkFn ::
  "fsys \<Rightarrow> (string \<Rightarrow> bool) option \<Rightarrow> bool \<Rightarrow> string
   \<Rightarrow> string \<Rightarrow> FileInfo option \<Rightarrow> error option \<Rightarrow> pathMaps \<Rightarrow> ret \<times> pathMaps" where
  "pathsWalkFn fs ignored isGitRepo currentDir path info err st =
     (case err of
        Some e \<Rightarrow> (RetErr e, st)
      | None \<Rightarrow>
         (case info of
            None \<Rightarrow> (RetPanic NilPointerDereference, st)
          | Some i \<Rightarrow>
              if infoIsDir i then
                (case Rel fs currentDir path of
                   Inl e \<Rightarrow> (RetErr e, st)
                 | Inr relPath \<Rightarrow>
                     if matchesIgnored ignored relPath
                     then (RetSkipDir, st\<lparr>ignoredPaths := (ignoredPaths st)(relPath \<mapsto> True)\<rparr>)
                     else (RetNil, st\<lparr>dirs := (dirs st)(relPath \<mapsto> True)\<rparr>))
              else if \<not> isGitRepo then
                (case Rel fs currentDir path of
                   Inl e \<Rightarrow> (RetErr e, st)
                 | Inr relPath \<Rightarrow>
                     if matchesIgnored ignored relPath
                     then (RetNil, st\<lparr>ignoredPaths := (ignoredPaths st)(relPath \<mapsto> True)\<rparr>)
                     else (RetNil, st\<lparr>paths := (paths st)(relPath \<mapsto> True)\<rparr>))
              else (RetNil, st)))"

text \<open>
  The walk goroutine (lines 229-271): the error of \<^verbatim>\<open>filepath.Walk\<close> is wrapped and
  sent, otherwise nil is sent. A panic of the callback has no value of this type; the
  line for it is never taken (\<open>walk_no_panic\<close> below).
\<close>

definition walkDirectory :: "fsys \<Rightarrow> (string \<Rightarrow> bool) option \<Rightarrow> bool \<Rightarrow> string \<Rightarrow> string \<Rightarrow> pathMaps \<Rightarrow> error + pathMaps" where
  "walkDirectory fs ignored isGitRepo baseDir currentDir st =
     (case Walk (pathsWalkFn fs ignored isGitRepo currentDir) (tree fs baseDir) st of
        (RetErr e, st') \<Rightarrow> Inl (Errorf (''error walking directory: '' @ errMsg e))
      | (RetPanic p, st') \<Rightarrow> Inl (Errorf ''panic'')
      | (r, st') \<Rightarrow> Inr st')"

text \<open>
  The producers of \<^verbatim>\<open>GetPaths\<close>. The two listings hold the mutex for their whole loop
  and the walk writes \<^verbatim>\<open>dirs\<close>, which no other goroutine touches (and \<^verbatim>\<open>paths\<close>
  only when it runs alone), so a run of the goroutines is the three in sequence. The
  first error received ends the call.
\<close>

definition producers :: "fsys \<Rightarrow> (string \<Rightarrow> bool) option \<Rightarrow> string \<Rightarrow> string \<Rightarrow> error + pathMaps" where
  "producers fs ignored baseDir currentDir =
     (let isGitRepo = IsGitRepo fs baseDir;
          listed =
            (if isGitRepo then
               (case trackedFiles fs ignored baseDir currentDir emptyMaps of
                  Inl err \<Rightarrow> Inl err
                | Inr st \<Rightarrow> untrackedFiles fs ignored baseDir currentDir st)
             else Inr emptyMaps)
      in case listed of
           Inl err \<Rightarrow> Inl err
         | Inr st \<Rightarrow> walkDirectory fs ignored isGitRepo baseDir currentDir st)"

text \<open>
  \<^verbatim>\<open>GetPaths\<close>: after every producer has reported no error, the keys of \<^verbatim>\<open>dirs\<close>
  are copied into \<^verbatim>\<open>paths\<close> (lines 280-282), and \<^verbatim>\<open>paths\<close> is returned with the
  matcher.
\<close>

definition GetPaths :: "fsys \<Rightarrow> string \<Rightarrow> string \<Rightarrow> error + ((string \<rightharpoonup> bool) \<times> (string \<Rightarrow> bool) option)" where
  "GetPaths fs baseDir currentDir =
     (case GetPlandexIgnore fs currentDir of
        Inl err \<Rightarrow> Inl err
      | Inr ignored \<Rightarrow>
          (case producers fs ignored baseDir currentDir of
             Inl err \<Rightarrow> Inl err
           | Inr st \<Rightarrow> Inr (paths st ++ dirs st, ignored)))"

text \<open>The set of paths a call returns, empty when it returns an error.\<close>

definition returnedPaths :: "error + ((string \<rightharpoonup> bool) \<times> (string \<Rightarrow> bool) option) \<Rightarrow> string set" where
  "returnedPaths r = (case r of Inl err \<Rightarrow> {} | Inr (m, ignored) \<Rightarrow> dom m)"

text \<open>The paths of the directories, of the files and of all nodes of a tree.\<close>

fun dirPaths :: "node \<Rightarrow> string set" where
  "dirPaths (FileNode path name) = {}"
| "dirPaths (BrokenNode path err) = {}"
| "dirPaths (DirNode path name err children) = insert path (\<Union> (dirPaths ` set children))"

fun filePaths :: "node \<Rightarrow> string set" where
  "filePaths (FileNode path name) = {path}"
| "filePaths (BrokenNode path err) = {}"
| "filePaths (DirNode path name err children) = \<Union> (filePaths ` set children)"

text \<open>
  The relative paths a git listing contributes: each line, joined to \<^verbatim>\<open>baseDir\<close> and
  made relative to \<^verbatim>\<open>currentDir\<close>, that the matcher does not match.
\<close>

definition listedPaths :: "fsys \<Rightarrow> (string \<Rightarrow> bool) option \<Rightarrow> string \<Rightarrow> string \<Rightarrow> string \<Rightarrow> string set" where
  "listedPaths fs ignored baseDir currentDir out =
     {r. \<exists>file \<in> set (splitOn (CHR 0x0A) out).
           Rel fs currentDir (Join [baseDir, file]) = Inr r \<and> \<not> matchesIgnored ignored r}"

text \<open>
  A directory of the tree is ignored when its path relative to \<^verbatim>\<open>currentDir\<close>
  matches. \<open>pruneIgnored\<close> cuts off everything below the ignored directories.
\<close>

definition ignoredDir :: "fsys \<Rightarrow> (string \<Rightarrow> bool) option \<Rightarrow> string \<Rightarrow> string \<Rightarrow> bool" where
  "ignoredDir fs ignored currentDir path =
     (case Rel fs currentDir path of Inl e \<Rightarrow> False | Inr relPath \<Rightarrow> matchesIgnored ignored relPath)"

fun pruneIgnored :: "(string \<Rightarrow> bool) \<Rightarrow> node \<Rightarrow> node" where
  "pruneIgnored ign (FileNode path name) = FileNode path name"
| "pruneIgnored ign (BrokenNode path err) = BrokenNode path err"
| "pruneIgnored ign (DirNode path name err children) =
     (if ign path then DirNode path name err []
      else DirNode path name err (map (pruneIgnored ign) children))"

text \<open>
  The keys a walk can contribute: the relative paths of the directories and of the files
  of a tree that the matcher does not match.
\<close>

definition relDirs :: "fsys \<Rightarrow> (string \<Rightarrow> bool) option \<Rightarrow> string \<Rightarrow> node \<Rightarrow> string set" where
  "relDirs fs ignored currentDir t =
     {r. \<exists>p \<in> dirPaths t. Rel fs currentDir p = Inr r \<and> \<not> matchesIgnored ignored r}"

definition relFiles :: "fsys \<Rightarrow> (string \<Rightarrow> bool) option \<Rightarrow> string \<Rightarrow> node \<Rightarrow> string set" where
  "relFiles fs ignored currentDir t =
     {r. \<exists>p \<in> filePaths t. Rel fs currentDir p = Inr r \<and> \<not> matchesIgnored ignored r}"

text \<open>The same for a list of listing lines.\<close>

definition listedOf :: "fsys \<Rightarrow> (string \<Rightarrow> bool) option \<Rightarrow> string \<Rightarrow> string \<Rightarrow> string list \<Rightarrow> string set" where
  "listedOf fs ig b c files =
     {r. \<exists>file \<in> set files. Rel fs c (Join [b, file]) = Inr r \<and> \<not> matchesIgnored ig r}"

text \<open>
  A concrete project for runs of \<^verbatim>\<open>GetPaths\<close>: the directory \<^verbatim>\<open>/p\<close> holds
  \<^verbatim>\<open>x.txt\<close> and a directory \<^verbatim>\<open>d\<close> with \<^verbatim>\<open>junk.o\<close> and \<^verbatim>\<open>keep.txt\<close>; git
  tracks \<^verbatim>\<open>d/keep.txt\<close> and \<^verbatim>\<open>x.txt\<close>. \<open>demoIgnore\<close> is the matcher of the
  ignore file with the two lines \<^verbatim>\<open>d\<close> and \<^verbatim>\<open>!d/keep.txt\<close>: it matches
  \<^verbatim>\<open>d\<close> and what is below it, except the re-included \<^verbatim>\<open>d/keep.txt\<close>.
  \<open>relUnder\<close> is \<^verbatim>\<open>filepath.Rel\<close> for a target at or below the base path.
\<close>

definition demoIgnore :: "string \<Rightarrow> bool" where
  "demoIgnore p = (p = ''d'' \<or> (take 2 p = ''d/'' \<and> p \<noteq> ''d/keep.txt''))"

definition relUnder :: "string \<Rightarrow> string \<Rightarrow> error + string" where
  "relUnder base targ =
     (if targ = base then Inr ''.''
      else if take (length base + 1) targ = base @ ''/'' then Inr (drop (length base + 1) targ)
      else Inl (Errorf ''Rel: target is not below the base path''))"

definition demoTree :: node where
  "demoTree =
     DirNode ''/p'' ''p'' None
       [DirNode ''/p/d'' ''d'' None
          [FileNode ''/p/d/junk.o'' ''junk.o'', FileNode ''/p/d/keep.txt'' ''keep.txt''],
        FileNode ''/p/x.txt'' ''x.txt'']"

definition demoFs :: "bool \<Rightarrow> fsys" where
  "demoFs git =
     \<lparr>development = False,
      stat = (\<lambda>p. if p = ''/p/.plandexignore'' then StatOk else StatNotExist),
      readFile = (\<lambda>p. Inl (Error ''no such file'' False)),
      unmarshalSettingsId = (\<lambda>bytes. None),
      compileIgnoreFile = (\<lambda>p. Inr demoIgnore),
      IsGitRepo = (\<lambda>dir. git),
      gitLsFiles = (\<lambda>dir. Inr (''d/keep.txt'' @ [CHR 0x0A] @ ''x.txt'' @ [CHR 0x0A])),
      gitLsFilesOthers = (\<lambda>dir. Inr []),
      tree = (\<lambda>dir. demoTree),
      Rel = relUnder\<rparr>"

section \<open>Project root locator\<close>

text \<open>
  \<^verbatim>\<open>findPlandex\<close>: the marker directory of \<^verbatim>\<open>baseDir\<close>, named after the
  environment, when \<^verbatim>\<open>os.Stat\<close> does not report that it is missing; the empty string
  otherwise.
\<close>

definition findPlandex :: "fsys \<Rightarrow> string \<Rightarrow> string" where
  "findPlandex fs baseDir =
     (let dir = (if development fs then Join [baseDir, ''.plandex-dev'']
                 else Join [baseDir, ''.plandex''])
      in if stat fs dir \<noteq> StatNotExist then dir else [])"

text \<open>What a lineage search does: it returns its list, returns an error, or panics.\<close>

datatype lineage =
  Returned "(string \<times> string) list"
| ReturnedError error
| Panics panic

text \<open>
  \<^verbatim>\<open>GetParentProjectIdsWithPaths\<close>. The loop runs while \<^verbatim>\<open>currentDir\<close> is not
  \<^verbatim>\<open>/\<close> and replaces it by its \<^verbatim>\<open>filepath.Dir\<close>; for a path that never reaches
  \<^verbatim>\<open>/\<close> it does not end, which is the value \<open>None\<close>. In each round the settings
  path is \<^verbatim>\<open>filepath.Join(plandexDir, "project.json")\<close> for whatever
  \<^verbatim>\<open>findPlandex\<close> returned, and the round appends a pair when \<^verbatim>\<open>os.Stat\<close> of that
  path succeeds.
\<close>

partial_function (option) parentLoop ::
  "fsys \<Rightarrow> string \<Rightarrow> (string \<times> string) list \<Rightarrow> lineage option" where
  "parentLoop fs currentDir parentProjectIds =
     (if currentDir = ''/'' then Some (Returned parentProjectIds)
      else (case stat fs (Join [findPlandex fs currentDir, ''project.json'']) of
              StatOk \<Rightarrow>
                (case readFile fs (Join [findPlandex fs currentDir, ''project.json'']) of
                   Inl err \<Rightarrow>
                     Some (ReturnedError (Errorf (''error reading projectId file: '' @ errMsg err)))
                 | Inr bytes \<Rightarrow>
                     (case unmarshalSettingsId fs bytes of
                        None \<Rightarrow> Some (Panics UnmarshalFailed)
                      | Some projectId \<Rightarrow>
                          parentLoop fs (Dir currentDir)
                            (parentProjectIds @ [(currentDir, projectId)])))
            | StatNotExist \<Rightarrow> parentLoop fs (Dir currentDir) parentProjectIds
            | StatError err \<Rightarrow> parentLoop fs (Dir currentDir) parentProjectIds))"

definition GetParentProjectIdsWithPaths :: "fsys \<Rightarrow> string \<Rightarrow> lineage option" where
  "GetParentProjectIdsWithPaths fs Cwd = parentLoop fs (Dir Cwd) []"

text \<open>
  \<^verbatim>\<open>GetChildProjectIdsWithPaths\<close>. The callback captures the list of pairs; the
  context is modelled by the number of times its \<^verbatim>\<open>Done\<close> channel is found open:
  the first \<open>deadline\<close> evaluations of the \<^verbatim>\<open>select\<close> take the default branch,
  every later one finds the context done.
\<close>

record childState =
  childProjectIds :: "(string \<times> string) list"
  ctxChecks :: nat

text \<open>
  The callback (lines 338-385). On a walk error that is a permission error it calls
  \<^verbatim>\<open>info.IsDir()\<close>, which panics when \<^verbatim>\<open>info\<close> is nil; any other walk error is
  returned. Hidden entries are skipped, then the context is looked at, and a directory
  other than \<^verbatim>\<open>Cwd\<close> is searched for its settings file.
\<close>

definition childWalkFn ::
  "fsys \<Rightarrow> string \<Rightarrow> nat \<Rightarrow> string \<Rightarrow> FileInfo option \<Rightarrow> error option \<Rightarrow> childState
   \<Rightarrow> ret \<times> childState" where
  "childWalkFn fs Cwd deadline path info err st =
     (case err of
        Some e \<Rightarrow>
          if isPermission e then
            (case info of
               None \<Rightarrow> (RetPanic NilPointerDereference, st)
             | Some i \<Rightarrow> if infoIsDir i then (RetSkipDir, st) else (RetNil, st))
          else (RetErr e, st)
      | None \<Rightarrow>
          (case info of
             None \<Rightarrow> (RetPanic NilPointerDereference, st)
           | Some i \<Rightarrow>
               if take 1 (infoName i) = ''.'' then
                 (if infoIsDir i then (RetSkipDir, st) else (RetNil, st))
               else if deadline \<le> ctxChecks st then (RetErr (Errorf ''context timeout''), st)
               else
                 (let st = st\<lparr>ctxChecks := ctxChecks st + 1\<rparr>
                  in if infoIsDir i \<and> path \<noteq> Cwd then
                       (case stat fs (Join [findPlandex fs path, ''project.json'']) of
                          StatOk \<Rightarrow>
                            (case readFile fs (Join [findPlandex fs path, ''project.json'']) of
                               Inl e \<Rightarrow>
                                 (RetErr (Errorf (''error reading projectId file: '' @ errMsg e)), st)
                             | Inr bytes \<Rightarrow>
                                 (case unmarshalSettingsId fs bytes of
                                    None \<Rightarrow> (RetPanic UnmarshalFailed, st)
                                  | Some projectId \<Rightarrow>
                                      (RetNil, st\<lparr>childProjectIds :=
                                         childProjectIds st @ [(path, projectId)]\<rparr>)))
                        | StatNotExist \<Rightarrow> (RetNil, st)
                        | StatError e \<Rightarrow> (RetNil, st))
                     else (RetNil, st))))"

definition GetChildProjectIdsWithPaths :: "fsys \<Rightarrow> nat \<Rightarrow> string \<Rightarrow> lineage" where
  "GetChildProjectIdsWithPaths fs deadline Cwd =
     (case Walk (childWalkFn fs Cwd deadline) (tree fs Cwd)
             \<lparr>childProjectIds = [], ctxChecks = 0\<rparr> of
        (RetErr err, st) \<Rightarrow>
          if errMsg err = ''context timeout'' then Returned (childProjectIds st)
          else ReturnedError
                 (Errorf (''error walking the path '' @ Cwd @ '': '' @ errMsg err))
      | (RetPanic p, st) \<Rightarrow> Panics p
      | (r, st) \<Rightarrow> Returned (childProjectIds st))"

text \<open>
  Concrete file systems for the lineage searches. In \<open>parentFs\<close> no directory has a
  marker directory and the working directory of the process, \<^verbatim>\<open>/a/b\<close>, holds a file
  \<^verbatim>\<open>project.json\<close>, which is what the relative path \<^verbatim>\<open>project.json\<close> names.
  In \<open>childFs\<close> the directory \<^verbatim>\<open>/w/sub\<close> is a project with identifier
  \<^verbatim>\<open>proj-sub\<close>; the tree under \<^verbatim>\<open>/w\<close> is a parameter.
\<close>

definition parentFs :: fsys where
  "parentFs =
     \<lparr>development = False,
      stat = (\<lambda>p. if p = ''project.json'' \<or> p = ''/a/b/project.json'' then StatOk
                  else StatNotExist),
      readFile = (\<lambda>p. if p = ''project.json'' \<or> p = ''/a/b/project.json''
                      then Inr ''{id: proj-x}'' else Inl (Error ''no such file'' False)),
      unmarshalSettingsId = (\<lambda>bytes. if bytes = ''{id: proj-x}'' then Some ''proj-x'' else None),
      compileIgnoreFile = (\<lambda>p. Inl (Error ''no such file'' False)),
      IsGitRepo = (\<lambda>dir. False),
      gitLsFiles = (\<lambda>dir. Inr []),
      gitLsFilesOthers = (\<lambda>dir. Inr []),
      tree = (\<lambda>dir. DirNode dir (Base dir) None []),
      Rel = relUnder\<rparr>"

definition childFs :: "node \<Rightarrow> fsys" where
  "childFs t =
     \<lparr>development = False,
      stat = (\<lambda>p. if p = ''/w/sub/.plandex'' \<or> p = ''/w/sub/.plandex/project.json''
                  then StatOk else StatNotExist),
      readFile = (\<lambda>p. if p = ''/w/sub/.plandex/project.json''
                      then Inr ''{id: proj-sub}'' else Inl (Error ''no such file'' False)),
      unmarshalSettingsId =
        (\<lambda>bytes. if bytes = ''{id: proj-sub}'' then Some ''proj-sub'' else None),
      compileIgnoreFile = (\<lambda>p. Inl (Error ''no such file'' False)),
      IsGitRepo = (\<lambda>dir. False),
      gitLsFiles = (\<lambda>dir. Inr []),
      gitLsFilesOthers = (\<lambda>dir. Inr []),
      tree = (\<lambda>dir. t),
      Rel = relUnder\<rparr>"

text \<open>
  Two trees under \<^verbatim>\<open>/w\<close>. In the first the entry \<^verbatim>\<open>locked\<close> cannot be examined:
  its \<^verbatim>\<open>Lstat\<close> fails with a permission error. In the second \<^verbatim>\<open>locked\<close> is a
  directory whose names cannot be read, with the same kind of error.
\<close>

definition lstatDeniedTree :: node where
  "lstatDeniedTree =
     DirNode ''/w'' ''w'' None
       [BrokenNode ''/w/locked'' (Error ''lstat /w/locked: permission denied'' True),
        DirNode ''/w/sub'' ''sub'' None []]"

definition readdirDeniedTree :: node where
  "readdirDeniedTree =
     DirNode ''/w'' ''w'' None
       [DirNode ''/w/locked'' ''locked''
          (Some (Error ''open /w/locked: permission denied'' True)) [],
        DirNode ''/w/sub'' ''sub'' None []]"

section \<open>Properties of the base-directory resolver\<close>

lemma countLeadingUp_eq:
  "countLeadingUp segs n cur =
     (n + length (takeWhile (\<lambda>s. s = ''..'') segs),
      (Dir ^^ length (takeWhile (\<lambda>s. s = ''..'') segs)) cur)"
proof (induction segs arbitrary: n cur)
  case Nil
  show ?case by simp
next
  case (Cons s segs)
  show ?case
  proof (cases "s = ''..''")
    case True
    then show ?thesis
      using Cons.IH [of "n + 1" "Dir cur"] by (simp add: funpow_swap1)
  next
    case False
    then show ?thesis by simp
  qed
qed

lemma countLeadingUp_root:
  "countLeadingUp (splitOn CHR ''/'' path) 0 root = (leadingUps path, climb (leadingUps path) root)"
  by (simp add: countLeadingUp_eq leadingUps_def climb_def)

lemma baseDirLoop_eq:
  "baseDirLoop root inputPaths (climb k root, k) =
     (climb (max k (maxLeadingUps inputPaths)) root, max k (maxLeadingUps inputPaths))"
proof (induction inputPaths arbitrary: k)
  case Nil
  show ?case by (simp add: maxLeadingUps_def)
next
  case (Cons p inputPaths)
  have m: "maxLeadingUps (p # inputPaths) = max (leadingUps p) (maxLeadingUps inputPaths)"
    by (simp add: maxLeadingUps_def)
  show ?case
  proof (cases "leadingUps p > k")
    case True
    then have "baseDirLoop root (p # inputPaths) (climb k root, k) =
               baseDirLoop root inputPaths (climb (leadingUps p) root, leadingUps p)"
      by (simp add: countLeadingUp_root)
    also have "\<dots> = (climb (max (leadingUps p) (maxLeadingUps inputPaths)) root,
                      max (leadingUps p) (maxLeadingUps inputPaths))"
      by (rule Cons.IH)
    finally show ?thesis using True by (simp add: m max.absorb2 max.assoc [symmetric])
  next
    case False
    then have "baseDirLoop root (p # inputPaths) (climb k root, k) =
               baseDirLoop root inputPaths (climb k root, k)"
      by (simp add: countLeadingUp_root)
    also have "\<dots> = (climb (max k (maxLeadingUps inputPaths)) root, max k (maxLeadingUps inputPaths))"
      by (rule Cons.IH)
    finally show ?thesis using False by (simp add: m max.absorb1 max.assoc [symmetric])
  qed
qed

lemma GetBaseDir_climb:
  "GetBaseDirForFilePaths root inputPaths = climb (maxLeadingUps inputPaths) root"
  using baseDirLoop_eq [of root inputPaths 0]
  by (simp add: GetBaseDirForFilePaths_def climb_def)

lemma maxLeadingUps_zero:
  "(\<forall>p \<in> set inputPaths. leadingUps p = 0) \<Longrightarrow> maxLeadingUps inputPaths = 0"
  by (induction inputPaths) (simp_all add: maxLeadingUps_def)

lemma example_maxLeadingUps:
  "maxLeadingUps [''../a/b'', ''../../c'', ''d/e''] = 2"
  by (simp add: maxLeadingUps_def leadingUps_def)

text \<open>
  Claim C7. \<^verbatim>\<open>GetBaseDirForFilePaths\<close> returns the ancestor of the project root
  reached by walking up (with \<^verbatim>\<open>filepath.Dir\<close>) as many times as the largest number of
  consecutive leading \<^verbatim>\<open>..\<close> segments among the input inputPaths. For
  \<^verbatim>\<open>["../a/b", "../../c", "d/e"]\<close> that is exactly two levels, and the project root
  itself is returned when no path starts with \<^verbatim>\<open>..\<close>, the empty list included.
\<close>

theorem GetBaseDirForFilePaths_max_climb:
  "GetBaseDirForFilePaths root inputPaths = climb (maxLeadingUps inputPaths) root
   \<and> maxLeadingUps [''../a/b'', ''../../c'', ''d/e''] = 2
   \<and> GetBaseDirForFilePaths root [''../a/b'', ''../../c'', ''d/e''] = Dir (Dir root)
   \<and> ((\<forall>p \<in> set inputPaths. leadingUps p = 0) \<longrightarrow> GetBaseDirForFilePaths root inputPaths = root)
   \<and> GetBaseDirForFilePaths root [] = root"
proof -
  have a: "GetBaseDirForFilePaths root inputPaths = climb (maxLeadingUps inputPaths) root"
    by (rule GetBaseDir_climb)
  have b: "GetBaseDirForFilePaths root [''../a/b'', ''../../c'', ''d/e''] = Dir (Dir root)"
    by (simp add: GetBaseDir_climb example_maxLeadingUps climb_def numeral_2_eq_2)
  have c: "(\<forall>p \<in> set inputPaths. leadingUps p = 0) \<longrightarrow> GetBaseDirForFilePaths root inputPaths = root"
    by (simp add: GetBaseDir_climb maxLeadingUps_zero climb_def)
  have d: "GetBaseDirForFilePaths root [] = root"
    by (simp add: GetBaseDirForFilePaths_def)
  from a b c d example_maxLeadingUps show ?thesis by blast
qed

theorem GetBaseDirForFilePaths_max_climb_witness:
  "leadingUps ''d/e'' = 0 \<and> leadingUps ''x'' = 0
   \<and> GetBaseDirForFilePaths ''/home/u/proj'' [''d/e'', ''x''] = ''/home/u/proj''
   \<and> GetBaseDirForFilePaths ''/home/u/proj'' [''../a/b'', ''../../c'', ''d/e''] = ''/home''"
proof -
  have h: "\<forall>p \<in> set [''d/e'', ''x'']. leadingUps p = 0"
    by (simp add: leadingUps_def)
  have d: "Dir (Dir ''/home/u/proj'') = ''/home''"
    by (simp add: Dir_def Clean_def)
  note c = GetBaseDirForFilePaths_max_climb [of "''/home/u/proj''" "[''d/e'', ''x'']"]
  from c h have r: "GetBaseDirForFilePaths ''/home/u/proj'' [''d/e'', ''x''] = ''/home/u/proj''"
    by blast
  from c d
  have e: "GetBaseDirForFilePaths ''/home/u/proj'' [''../a/b'', ''../../c'', ''d/e''] = ''/home''"
    by metis
  from h r e show ?thesis by simp
qed

section \<open>Properties of context ingestion\<close>

lemma lockedAdd_counters:
  "totalTokens (stateOf (lockedAdd t m n sh)) = totalTokens sh + n"
  "tokensAdded (stateOf (lockedAdd t m n sh)) = tokensAdded sh + n"
  "totalUpdatableTokens (stateOf (lockedAdd t m n sh)) =
     totalUpdatableTokens sh +
     (if t = ContextFileType \<or> t = ContextDirectoryTreeType \<or> t = ContextURLType then n else 0)"
  "contextParts (stateOf (lockedAdd t m n sh)) = contextParts sh"
  by (cases t; simp add: Let_def)+

lemma lockedAdd_isl: "isl (lockedAdd t m n sh) \<longleftrightarrow> m <s totalTokens sh + n"
  by (cases t; simp add: Let_def)

lemma lockedAdd_Inl:
  "lockedAdd t m n sh = Inl (x, sh') \<Longrightarrow> x = TokensExceedMaximum (totalTokens sh + n) m"
  by (cases t; auto simp add: Let_def split: if_splits)

lemma complete_counters:
  "totalTokens (stateOf (complete e j body n sh)) = totalTokens sh"
  "tokensAdded (stateOf (complete e j body n sh)) = tokensAdded sh"
  "totalUpdatableTokens (stateOf (complete e j body n sh)) = totalUpdatableTokens sh"
  by (cases j; simp add: Let_def split: option.splits)+

lemma runJob_prepared:
  assumes "prepare e j = Inr (body, n)"
  shows "totalTokens (stateOf (runJob e j sh)) = totalTokens sh + n"
    and "tokensAdded (stateOf (runJob e j sh)) = tokensAdded sh + n"
    and "totalUpdatableTokens (stateOf (runJob e j sh)) =
       totalUpdatableTokens sh +
       (if jobType j = ContextFileType \<or> jobType j = ContextDirectoryTreeType
           \<or> jobType j = ContextURLType then n else 0)"
proof -
  let ?l = "lockedAdd (jobType j) (MaxContextTokens e) n sh"
  show "totalTokens (stateOf (runJob e j sh)) = totalTokens sh + n"
  proof (cases ?l)
    case (Inl x)
    with assms lockedAdd_counters(1) [of "jobType j" "MaxContextTokens e" n sh]
    show ?thesis by (simp add: runJob_def)
  next
    case (Inr sh')
    with assms lockedAdd_counters(1) [of "jobType j" "MaxContextTokens e" n sh]
    show ?thesis by (simp add: runJob_def complete_counters)
  qed
  show "tokensAdded (stateOf (runJob e j sh)) = tokensAdded sh + n"
  proof (cases ?l)
    case (Inl x)
    with assms lockedAdd_counters(2) [of "jobType j" "MaxContextTokens e" n sh]
    show ?thesis by (simp add: runJob_def)
  next
    case (Inr sh')
    with assms lockedAdd_counters(2) [of "jobType j" "MaxContextTokens e" n sh]
    show ?thesis by (simp add: runJob_def complete_counters)
  qed
  show "totalUpdatableTokens (stateOf (runJob e j sh)) =
       totalUpdatableTokens sh +
       (if jobType j = ContextFileType \<or> jobType j = ContextDirectoryTreeType
           \<or> jobType j = ContextURLType then n else 0)"
  proof (cases ?l)
    case (Inl x)
    with assms lockedAdd_counters(3) [of "jobType j" "MaxContextTokens e" n sh]
    show ?thesis by (simp add: runJob_def)
  next
    case (Inr sh')
    with assms lockedAdd_counters(3) [of "jobType j" "MaxContextTokens e" n sh]
    show ?thesis by (simp add: runJob_def complete_counters)
  qed
qed

lemma runJob_unprepared:
  "prepare e j = Inl x \<Longrightarrow> runJob e j sh = Inl (x, sh)"
  by (simp add: runJob_def)




lemma runJobs_added:
  "tokensAdded (stateOf (runJobs e js sh)) - tokensAdded sh =
   totalTokens (stateOf (runJobs e js sh)) - totalTokens sh"
proof (induction js arbitrary: sh)
  case Nil
  show ?case by simp
next
  case (Cons j js)
  show ?case
  proof (cases "prepare e j")
    case (Inl x)
    then show ?thesis by (simp add: runJob_unprepared)
  next
    case (Inr p)
    obtain body n where p: "p = (body, n)" by (cases p)
    with Inr have prep: "prepare e j = Inr (body, n)" by simp
    show ?thesis
    proof (cases "runJob e j sh")
      case (Inl x)
      with runJob_prepared(1,2) [OF prep, of sh] show ?thesis by simp
    next
      case (Inr sh')
      with runJob_prepared(1,2) [OF prep, of sh]
      have s: "totalTokens sh' = totalTokens sh + n" "tokensAdded sh' = tokensAdded sh + n"
        by simp_all
      from Cons.IH [of sh'] Inr
      have "tokensAdded (stateOf (runJobs e (j # js) sh)) - tokensAdded sh' =
            totalTokens (stateOf (runJobs e (j # js) sh)) - totalTokens sh'"
        by simp
      then show ?thesis unfolding s by (simp add: algebra_simps)
    qed
  qed
qed

lemma mset_single: "mset xs = mset [j] \<Longrightarrow> xs = [j]"
  by (cases xs) auto



lemma sint_succ_no_wrap:
  fixes T :: goInt
  assumes "sint T + 1 < 2 ^ 63"
  shows "sint (T + 1) = sint T + 1"
proof -
  have "sint (T + 1) = signed_take_bit 63 (sint T + 1)"
    by (simp add: sint_word_ariths)
  also have "\<dots> = sint T + 1"
    using assms sint_ge [of T] by (intro signed_take_bit_int_eq_self) simp_all
  finally show ?thesis .
qed




lemma MustLoadContext_Inr:
  assumes "MustLoadContext e sched resources params = Inr (added, tot, ps')"
  shows "\<exists>ps jobs sh. GetPlanState e = Some ps \<and> dispatch e resources params = Inr jobs
          \<and> runJobs e (sched jobs) (initShared ps) = Inr sh
          \<and> added = tokensAdded sh \<and> tot = totalTokens sh
          \<and> ContextTokens ps' = totalTokens sh
          \<and> ContextUpdatableTokens ps' = totalUpdatableTokens sh"
  using assms
  by (auto simp: MustLoadContext_def finish_def Let_def split: option.splits sum.splits if_splits)

text \<open>
  Claim C1. A call with maximum \<open>T\<close>, a plan state whose running total is 0 and a
  single goroutine whose token count is \<open>T + 1\<close> (a count that exists as an
  \<^verbatim>\<open>int\<close>, that is, \<open>T\<close> is not the largest one) exits with the
  tokens-exceed-maximum message, and the shared counters at that exit are \<open>T + 1\<close>:
  the count is added before the check and stays added. In general the locked section
  exits exactly when the total, after the addition, is greater than the maximum.
\<close>

theorem abort_boundary:
  assumes "GetPlanState e = Some ps" and "ContextTokens ps = 0"
    and "MaxContextTokens e = T" and "sint T + 1 < 2 ^ 63"
    and "dispatch e resources params = Inr [j]"
    and "prepare e j = Inr (body, T + 1)"
    and "mset (sched [j]) = mset [j]"
  shows "(\<exists>sh. MustLoadContext e sched resources params = Inl (TokensExceedMaximum (T + 1) T, sh)
            \<and> totalTokens sh = T + 1 \<and> tokensAdded sh = T + 1)
       \<and> (isl (lockedAdd t m n sh0) \<longleftrightarrow> m <s totalTokens sh0 + n)
       \<and> totalTokens (stateOf (lockedAdd t m n sh0)) = totalTokens sh0 + n"
proof -
  have s: "sched [j] = [j]" using assms(7) by (rule mset_single)
  let ?sh = "initShared ps"
  have "T <s T + 1"
    using sint_succ_no_wrap [OF assms(4)] by (simp add: word_sless_alt)
  then have "isl (lockedAdd (jobType j) T (T + 1) ?sh)"
    using assms(2) by (simp add: lockedAdd_isl initShared_def)
  then obtain x sh where l: "lockedAdd (jobType j) T (T + 1) ?sh = Inl (x, sh)"
    by (cases "lockedAdd (jobType j) T (T + 1) ?sh") auto
  from lockedAdd_Inl [OF l] assms(2) have x: "x = TokensExceedMaximum (T + 1) T"
    by (simp add: initShared_def)
  from lockedAdd_counters(1,2) [of "jobType j" T "T + 1" ?sh] l assms(2)
  have c: "totalTokens sh = T + 1" "tokensAdded sh = T + 1"
    by (simp_all add: initShared_def)
  have "MustLoadContext e sched resources params = Inl (TokensExceedMaximum (T + 1) T, sh)"
    using assms(1,3,5,6) s l x by (simp add: MustLoadContext_def runJob_def)
  with c show ?thesis by (simp add: lockedAdd_isl lockedAdd_counters)
qed

text \<open>
  Claim C10. When the call returns, the returned \<^verbatim>\<open>tokensAdded\<close> is the returned
  \<^verbatim>\<open>totalTokens\<close> minus the \<^verbatim>\<open>ContextTokens\<close> read from the plan state at the start.
\<close>

theorem tokensAdded_is_difference:
  assumes "GetPlanState e = Some ps"
    and "MustLoadContext e sched resources params = Inr (added, tot, ps')"
  shows "added = tot - ContextTokens ps"
proof -
  from MustLoadContext_Inr [OF assms(2)] assms(1) obtain jobs sh where
    r: "runJobs e (sched jobs) (initShared ps) = Inr sh" and
    a: "added = tokensAdded sh" "tot = totalTokens sh"
    by auto
  from runJobs_added [of e "sched jobs" "initShared ps"] r a show ?thesis
    by (simp add: initShared_def)
qed



lemma demoEnv_returns:
  "MustLoadContext (demoEnv 100) rev [''a'', ''b''] fullContent =
     Inr (15, 15, \<lparr>ContextTokens = 15, ContextUpdatableTokens = 15\<rparr>)"
  by (simp add: MustLoadContext_def dispatch_def runJob_def demoEnv_def fullContent_def
      initShared_def finish_def Let_def)


lemma demoEnv_planState:
  "GetPlanState (demoEnv m) = Some \<lparr>ContextTokens = 0, ContextUpdatableTokens = 0\<rparr>"
  by (simp add: demoEnv_def)


theorem abort_boundary_witness:
  "GetPlanState (demoEnv 4) = Some \<lparr>ContextTokens = 0, ContextUpdatableTokens = 0\<rparr>
   \<and> sint (4 :: goInt) + 1 < 2 ^ 63
   \<and> dispatch (demoEnv 4) [''a''] fullContent = Inr [FileJob ''a'']
   \<and> prepare (demoEnv 4) (FileJob ''a'') = Inr (''12345'', 4 + 1)
   \<and> mset (rev [FileJob ''a'']) = mset [FileJob ''a'']
   \<and> finalTotal (MustLoadContext (demoEnv 4) rev [''a''] fullContent) = 5
   \<and> isl (MustLoadContext (demoEnv 4) rev [''a''] fullContent)"
proof -
  let ?ps = "\<lparr>ContextTokens = 0, ContextUpdatableTokens = 0\<rparr>"
  have h1: "GetPlanState (demoEnv 4) = Some ?ps" by (simp add: demoEnv_def)
  have h2: "ContextTokens ?ps = 0" by simp
  have h3: "MaxContextTokens (demoEnv 4) = 4" by (simp add: demoEnv_def)
  have h4: "sint (4 :: goInt) + 1 < 2 ^ 63" by simp
  have h5: "dispatch (demoEnv 4) [''a''] fullContent = Inr [FileJob ''a'']"
    by (simp add: dispatch_def demoEnv_def fullContent_def)
  have h6: "prepare (demoEnv 4) (FileJob ''a'') = Inr (''12345'', 4 + 1)"
    by (simp add: demoEnv_def)
  have h7: "mset (rev [FileJob ''a'']) = mset [FileJob ''a'']" by simp
  from abort_boundary [where sched = rev, OF h1 h2 h3 h4 h5 h6 h7, THEN conjunct1]
  have "finalTotal (MustLoadContext (demoEnv 4) rev [''a''] fullContent) = 5
        \<and> isl (MustLoadContext (demoEnv 4) rev [''a''] fullContent)"
    by (auto simp: finalTotal_def)
  with h1 h4 h5 h6 h7 show ?thesis by blast
qed

theorem tokensAdded_is_difference_witness:
  "GetPlanState (demoEnv 100) = Some \<lparr>ContextTokens = 0, ContextUpdatableTokens = 0\<rparr>
   \<and> MustLoadContext (demoEnv 100) rev [''a'', ''b''] fullContent =
       Inr (15, 15, \<lparr>ContextTokens = 15, ContextUpdatableTokens = 15\<rparr>)
   \<and> (15 :: goInt) = 15 - ContextTokens \<lparr>ContextTokens = 0, ContextUpdatableTokens = 0\<rparr>"
  using tokensAdded_is_difference [OF demoEnv_planState demoEnv_returns]
    demoEnv_planState [of 100] demoEnv_returns
  by blast




text \<open>
  Claim C4 on the code. In names-only mode the goroutine for the input path \<^verbatim>\<open>.\<close>
  appends a directory-tree part whose \<^verbatim>\<open>Name\<close> is \<^verbatim>\<open>.\<close>, and the one for
  \<^verbatim>\<open>..\<close> a part whose \<^verbatim>\<open>Name\<close> is \<^verbatim>\<open>..\<close>: the names \<^verbatim>\<open>cwd\<close> and
  \<^verbatim>\<open>parent\<close> are computed into a local variable that the part does not use.
\<close>

theorem names_only_dot_keeps_path_name:
  "dispatch (demoEnv 100) [''.'', ''..''] namesOnly =
     Inr [DirectoryTreeJob ''.'', DirectoryTreeJob ''..'']
   \<and> map Name (contextParts (stateOf (runJobs (demoEnv 100)
        [DirectoryTreeJob ''.'', DirectoryTreeJob ''..'']
        (initShared \<lparr>ContextTokens = 0, ContextUpdatableTokens = 0\<rparr>)))) = [''.'', ''..'']
   \<and> map Type (contextParts (stateOf (runJobs (demoEnv 100)
        [DirectoryTreeJob ''.'', DirectoryTreeJob ''..'']
        (initShared \<lparr>ContextTokens = 0, ContextUpdatableTokens = 0\<rparr>)))) =
       [ContextDirectoryTreeType, ContextDirectoryTreeType]"
  by (simp add: dispatch_def runJob_def demoEnv_def namesOnly_def initShared_def Let_def
      word_sless_alt)

section \<open>Properties of the path enumerator\<close>

lemma listedOf_Cons:
  "Rel fs c (Join [b, f]) = Inr r \<Longrightarrow>
   listedOf fs ig b c (f # files) =
     (if matchesIgnored ig r then listedOf fs ig b c files else insert r (listedOf fs ig b c files))"
  by (auto simp: listedOf_def)

lemma addListed_maps:
  "addListed fs ig b c files st = Inr st' \<Longrightarrow>
     dom (paths st') = dom (paths st) \<union> listedOf fs ig b c files \<and> dirs st' = dirs st"
proof (induction files arbitrary: st)
  case Nil
  then show ?case by (simp add: listedOf_def)
next
  case (Cons f files)
  from Cons.prems obtain r where r: "Rel fs c (Join [b, f]) = Inr r"
    by (cases "Rel fs c (Join [b, f])") (auto simp: Let_def)
  show ?case
  proof (cases "matchesIgnored ig r")
    case True
    with Cons.prems r
    have "addListed fs ig b c files (st\<lparr>ignoredPaths := (ignoredPaths st)(r \<mapsto> True)\<rparr>) = Inr st'"
      by (simp add: Let_def)
    from Cons.IH [OF this] True show ?thesis by (auto simp add: listedOf_Cons [OF r] dom_def)
  next
    case False
    with Cons.prems r
    have "addListed fs ig b c files (st\<lparr>paths := (paths st)(r \<mapsto> True)\<rparr>) = Inr st'"
      by (simp add: Let_def)
    from Cons.IH [OF this] False show ?thesis by (auto simp add: listedOf_Cons [OF r] dom_def)
  qed
qed


lemma relDirs_simps:
  "relDirs fs ig c (FileNode p n) = {}"
  "relDirs fs ig c (BrokenNode p e) = {}"
  "relDirs fs ig c (DirNode p n eo cs) =
     {k. Rel fs c p = Inr k \<and> \<not> matchesIgnored ig k} \<union> (\<Union>t \<in> set cs. relDirs fs ig c t)"
  by (auto simp: relDirs_def)

lemma relFiles_simps:
  "relFiles fs ig c (FileNode p n) = {k. Rel fs c p = Inr k \<and> \<not> matchesIgnored ig k}"
  "relFiles fs ig c (BrokenNode p e) = {}"
  "relFiles fs ig c (DirNode p n eo cs) = (\<Union>t \<in> set cs. relFiles fs ig c t)"
  by (auto simp: relFiles_def)

lemma dom_upd_True: "dom (m(k \<mapsto> v)) = insert k (dom m)"
  by simp

lemma pathsWalkFn_file:
  assumes "pathsWalkFn fs ig g c p (Some \<lparr>infoName = n, infoIsDir = False\<rparr>) None st = (r, st')"
    and "r = RetNil \<or> r = RetSkipDir"
  shows "r = RetNil \<and> dirs st' = dirs st
       \<and> dom (paths st') = dom (paths st) \<union>
           (if g then {} else {k. Rel fs c p = Inr k \<and> \<not> matchesIgnored ig k})"
proof (cases g)
  case True
  with assms show ?thesis by (simp add: pathsWalkFn_def)
next
  case False
  with assms obtain k where k: "Rel fs c p = Inr k"
    by (cases "Rel fs c p") (auto simp: pathsWalkFn_def)
  show ?thesis
  proof (cases "matchesIgnored ig k")
    case True
    with assms False k show ?thesis by (auto simp: pathsWalkFn_def)
  next
    case M: False
    with assms False k have "r = RetNil" and s: "st' = st\<lparr>paths := (paths st)(k \<mapsto> True)\<rparr>"
      by (auto simp: pathsWalkFn_def)
    have "dom (paths st') = insert k (dom (paths st))" unfolding s by simp
    with \<open>r = RetNil\<close> s False k M show ?thesis by auto
  qed
qed

lemma pathsWalkFn_dir:
  assumes "pathsWalkFn fs ig g c p (Some \<lparr>infoName = n, infoIsDir = True\<rparr>) err st = (r, st')"
    and "r = RetNil \<or> r = RetSkipDir"
  shows "err = None \<and> paths st' = paths st
       \<and> (\<exists>k. Rel fs c p = Inr k
            \<and> (if matchesIgnored ig k then r = RetSkipDir \<and> dirs st' = dirs st
               else r = RetNil \<and> dirs st' = (dirs st)(k \<mapsto> True)))"
proof -
  from assms have e: "err = None" by (cases err) (auto simp: pathsWalkFn_def)
  with assms obtain k where k: "Rel fs c p = Inr k"
    by (cases "Rel fs c p") (auto simp: pathsWalkFn_def)
  with assms e show ?thesis by (auto simp: pathsWalkFn_def split: if_splits)
qed

lemma pathsWalkFn_broken:
  "pathsWalkFn fs ig g c p None (Some e) st = (RetErr e, st)"
  by (simp add: pathsWalkFn_def)

lemma isDirNode_prune [simp]: "isDirNode (pruneIgnored ign t) = isDirNode t"
  by (cases t) auto

lemma isBrokenNode_prune [simp]: "isBrokenNode (pruneIgnored ign t) = isBrokenNode t"
  by (cases t) auto

lemma walk_exact:
  "walk (pathsWalkFn fs ig g c) t st = (r, st') \<Longrightarrow> r = RetNil \<or> r = RetSkipDir \<Longrightarrow>
     dom (dirs st') = dom (dirs st) \<union> relDirs fs ig c (pruneIgnored (ignoredDir fs ig c) t)
     \<and> dom (paths st') = dom (paths st) \<union>
         (if g then {} else relFiles fs ig c (pruneIgnored (ignoredDir fs ig c) t))
     \<and> (r = RetSkipDir \<longrightarrow> isDirNode t)"
  "walkNames (pathsWalkFn fs ig g c) ts st = (r, st') \<Longrightarrow> r = RetNil \<or> r = RetSkipDir \<Longrightarrow>
     dom (dirs st') = dom (dirs st) \<union>
         (\<Union>t \<in> set ts. relDirs fs ig c (pruneIgnored (ignoredDir fs ig c) t))
     \<and> dom (paths st') = dom (paths st) \<union>
         (if g then {} else (\<Union>t \<in> set ts. relFiles fs ig c (pruneIgnored (ignoredDir fs ig c) t)))
     \<and> r = RetNil"
proof (induction "pathsWalkFn fs ig g c" t st and "pathsWalkFn fs ig g c" ts st
    arbitrary: r st' and r st' rule: walk_walkNames.induct)
  case (1 path name s)
  from pathsWalkFn_file [of fs ig g c path name s r st'] 1
  show ?case by (simp add: relDirs_simps relFiles_simps)
next
  case (2 path err s)
  then show ?case by (auto simp add: pathsWalkFn_broken)
next
  case (3 path name err children s)
  let ?fn = "pathsWalkFn fs ig g c"
  obtain r0 s0 where c: "?fn path (Some \<lparr>infoName = name, infoIsDir = True\<rparr>) err s = (r0, s0)"
    by (cases "?fn path (Some \<lparr>infoName = name, infoIsDir = True\<rparr>) err s")
  have r0: "r0 = RetNil \<or> r0 = RetSkipDir"
  proof (cases "err \<noteq> None \<or> r0 \<noteq> RetNil")
    case True
    with "3.prems" c show ?thesis by auto
  next
    case False
    then show ?thesis by simp
  qed
  from pathsWalkFn_dir [OF c r0] obtain k where
    e: "err = None" and p0: "paths s0 = paths s" and k: "Rel fs c path = Inr k" and
    m: "if matchesIgnored ig k then r0 = RetSkipDir \<and> dirs s0 = dirs s
        else r0 = RetNil \<and> dirs s0 = (dirs s)(k \<mapsto> True)"
    by blast
  show ?case
  proof (cases "matchesIgnored ig k")
    case True
    with m have "r0 = RetSkipDir" and d0: "dirs s0 = dirs s" by auto
    with "3.prems" c have "r = RetSkipDir" "st' = s0" by auto
    moreover have "ignoredDir fs ig c path" using k True by (simp add: ignoredDir_def)
    ultimately show ?thesis using d0 p0 k True
      by (auto simp add: relDirs_simps relFiles_simps)
  next
    case False
    with m have rn: "r0 = RetNil" and d0: "dirs s0 = (dirs s)(k \<mapsto> True)" by auto
    from "3.prems" c e rn have w: "walkNames ?fn children s0 = (r, st')" by simp
    have ni: "\<not> ignoredDir fs ig c path" using k False by (simp add: ignoredDir_def)
    have "\<not> (err \<noteq> None \<or> r0 \<noteq> RetNil)" using e rn by simp
    from "3.hyps" [OF c [symmetric] this w "3.prems"(2)]
    have ih: "dom (dirs st') = dom (dirs s0) \<union>
         (\<Union>t \<in> set children. relDirs fs ig c (pruneIgnored (ignoredDir fs ig c) t))"
       "dom (paths st') = dom (paths s0) \<union>
         (if g then {} else (\<Union>t \<in> set children. relFiles fs ig c (pruneIgnored (ignoredDir fs ig c) t)))"
       "r = RetNil"
      by auto
    have dk: "dom (dirs s0) = insert k (dom (dirs s))" unfolding d0 by simp
    from ih dk p0 k False ni show ?thesis
      by (auto simp add: relDirs_simps relFiles_simps)
  qed
next
  case (4 s)
  then show ?case by simp
next
  case (5 child rest s)
  let ?fn = "pathsWalkFn fs ig g c"
  obtain r1 s1 where c: "walk ?fn child s = (r1, s1)"
    by (cases "walk ?fn child s")
  have r1: "r1 = RetNil \<or> r1 = RetSkipDir"
    using "5.prems" c by (auto split: if_splits)
  from "5.hyps"(1) [OF c r1]
  have h1: "dom (dirs s1) = dom (dirs s) \<union> relDirs fs ig c (pruneIgnored (ignoredDir fs ig c) child)"
    "dom (paths s1) = dom (paths s) \<union>
         (if g then {} else relFiles fs ig c (pruneIgnored (ignoredDir fs ig c) child))"
    "r1 = RetSkipDir \<longrightarrow> isDirNode child"
    by auto
  have w: "walkNames ?fn rest s1 = (r, st')"
    using "5.prems"(1) c r1 h1(3) by (auto split: if_splits)
  have ih: "dom (dirs st') = dom (dirs s1) \<union>
         (\<Union>t \<in> set rest. relDirs fs ig c (pruneIgnored (ignoredDir fs ig c) t))
     \<and> dom (paths st') = dom (paths s1) \<union>
         (if g then {} else (\<Union>t \<in> set rest. relFiles fs ig c (pruneIgnored (ignoredDir fs ig c) t)))
     \<and> r = RetNil"
  proof (cases "r1 = RetNil")
    case True
    from "5.hyps"(2) [OF c [symmetric] True w "5.prems"(2)] show ?thesis .
  next
    case False
    with r1 h1(3) have t: "r1 = RetSkipDir \<and> (isDirNode child \<or> isBrokenNode child)" by simp
    from "5.hyps"(3) [OF c [symmetric] False t w "5.prems"(2)] show ?thesis .
  qed
  with h1 show ?case by auto
qed


lemma walkDirectory_exact:
  assumes "walkDirectory fs ig g b c st = Inr st'"
  shows "dom (dirs st') = dom (dirs st) \<union> relDirs fs ig c (pruneIgnored (ignoredDir fs ig c) (tree fs b))"
    and "dom (paths st') = dom (paths st) \<union>
           (if g then {} else relFiles fs ig c (pruneIgnored (ignoredDir fs ig c) (tree fs b)))"
proof -
  obtain r s1 where w: "walk (pathsWalkFn fs ig g c) (tree fs b) st = (r, s1)"
    by (cases "walk (pathsWalkFn fs ig g c) (tree fs b) st")
  with assms have r: "r = RetNil \<or> r = RetSkipDir" and s: "s1 = st'"
    by (cases r; simp add: walkDirectory_def Walk_def)+
  from walk_exact(1) [OF w r] s
  show "dom (dirs st') = dom (dirs st) \<union> relDirs fs ig c (pruneIgnored (ignoredDir fs ig c) (tree fs b))"
    and "dom (paths st') = dom (paths st) \<union>
           (if g then {} else relFiles fs ig c (pruneIgnored (ignoredDir fs ig c) (tree fs b)))"
    by simp_all
qed

lemma listed_exact:
  assumes "trackedFiles fs ig b c emptyMaps = Inr st1"
    and "untrackedFiles fs ig b c st1 = Inr st2"
  shows "\<exists>out1 out2. gitLsFiles fs b = Inr out1 \<and> gitLsFilesOthers fs b = Inr out2
           \<and> dom (paths st2) = listedPaths fs ig b c out1 \<union> listedPaths fs ig b c out2
           \<and> dirs st2 = Map.empty"
proof -
  from assms(1) obtain out1 where o1: "gitLsFiles fs b = Inr out1"
    and a1: "addListed fs ig b c (splitOn (CHR 0x0A) out1) emptyMaps = Inr st1"
    by (cases "gitLsFiles fs b") (auto simp: trackedFiles_def)
  from assms(2) obtain out2 where o2: "gitLsFilesOthers fs b = Inr out2"
    and a2: "addListed fs ig b c (splitOn (CHR 0x0A) out2) st1 = Inr st2"
    by (cases "gitLsFilesOthers fs b") (auto simp: untrackedFiles_def)
  have lp: "\<And>out. listedPaths fs ig b c out = listedOf fs ig b c (splitOn (CHR 0x0A) out)"
    by (simp add: listedPaths_def listedOf_def)
  from addListed_maps [OF a1] addListed_maps [OF a2]
  have "dom (paths st2) = listedPaths fs ig b c out1 \<union> listedPaths fs ig b c out2"
    and "dirs st2 = Map.empty"
    by (simp_all add: emptyMaps_def lp)
  with o1 o2 show ?thesis by blast
qed

lemma GetPaths_exact:
  assumes "GetPaths fs baseDir currentDir = Inr (m, ig)"
  shows "\<exists>st. producers fs ig baseDir currentDir = Inr st \<and> m = paths st ++ dirs st
     \<and> dom (dirs st) =
         relDirs fs ig currentDir (pruneIgnored (ignoredDir fs ig currentDir) (tree fs baseDir))
     \<and> (IsGitRepo fs baseDir \<longrightarrow>
          (\<exists>out1 out2. gitLsFiles fs baseDir = Inr out1 \<and> gitLsFilesOthers fs baseDir = Inr out2
                \<and> dom (paths st) = listedPaths fs ig baseDir currentDir out1
                                   \<union> listedPaths fs ig baseDir currentDir out2))
     \<and> (\<not> IsGitRepo fs baseDir \<longrightarrow>
          dom (paths st) =
            relFiles fs ig currentDir (pruneIgnored (ignoredDir fs ig currentDir) (tree fs baseDir)))"
proof -
  from assms obtain st where i: "GetPlandexIgnore fs currentDir = Inr ig"
    and p: "producers fs ig baseDir currentDir = Inr st" and m: "m = paths st ++ dirs st"
    by (auto simp: GetPaths_def split: sum.splits)
  show ?thesis
  proof (cases "IsGitRepo fs baseDir")
    case True
    with p obtain st1 st2 where t: "trackedFiles fs ig baseDir currentDir emptyMaps = Inr st1"
      and u: "untrackedFiles fs ig baseDir currentDir st1 = Inr st2"
      and w: "walkDirectory fs ig True baseDir currentDir st2 = Inr st"
      by (auto simp: producers_def Let_def split: sum.splits)
    from listed_exact [OF t u] obtain out1 out2 where
      o: "gitLsFiles fs baseDir = Inr out1" "gitLsFilesOthers fs baseDir = Inr out2"
      and l: "dom (paths st2) = listedPaths fs ig baseDir currentDir out1
                \<union> listedPaths fs ig baseDir currentDir out2"
      and d: "dirs st2 = Map.empty"
      by blast
    from walkDirectory_exact [OF w] l d
    have "dom (dirs st) =
         relDirs fs ig currentDir (pruneIgnored (ignoredDir fs ig currentDir) (tree fs baseDir))"
      and "dom (paths st) = listedPaths fs ig baseDir currentDir out1
                \<union> listedPaths fs ig baseDir currentDir out2"
      by simp_all
    with True p m o show ?thesis by blast
  next
    case False
    with p have w: "walkDirectory fs ig False baseDir currentDir emptyMaps = Inr st"
      by (auto simp: producers_def Let_def)
    from walkDirectory_exact [OF w]
    have "dom (dirs st) =
         relDirs fs ig currentDir (pruneIgnored (ignoredDir fs ig currentDir) (tree fs baseDir))"
      and "dom (paths st) =
         relFiles fs ig currentDir (pruneIgnored (ignoredDir fs ig currentDir) (tree fs baseDir))"
      by (simp_all add: emptyMaps_def)
    with False p m show ?thesis by blast
  qed
qed

lemma pathsWalkFn_ignored_dir:
  assumes "ignoredDir fs ig c p"
  shows "fst (pathsWalkFn fs ig g c p (Some \<lparr>infoName = n, infoIsDir = True\<rparr>) err st) \<noteq> RetNil"
proof -
  from assms obtain k where "Rel fs c p = Inr k" "matchesIgnored ig k"
    by (cases "Rel fs c p") (auto simp: ignoredDir_def)
  then show ?thesis by (cases err) (simp_all add: pathsWalkFn_def)
qed

lemma walk_prune:
  "walk (pathsWalkFn fs ig g c) (pruneIgnored (ignoredDir fs ig c) t) st
     = walk (pathsWalkFn fs ig g c) t st"
  "walkNames (pathsWalkFn fs ig g c) (map (pruneIgnored (ignoredDir fs ig c)) ts) st
     = walkNames (pathsWalkFn fs ig g c) ts st"
proof (induction "pathsWalkFn fs ig g c" t st and "pathsWalkFn fs ig g c" ts st
    rule: walk_walkNames.induct)
  case (1 path name s)
  show ?case by simp
next
  case (2 path err s)
  show ?case by simp
next
  case (3 path name err children s)
  let ?fn = "pathsWalkFn fs ig g c"
  obtain r0 s0 where c: "?fn path (Some \<lparr>infoName = name, infoIsDir = True\<rparr>) err s = (r0, s0)"
    by (cases "?fn path (Some \<lparr>infoName = name, infoIsDir = True\<rparr>) err s")
  show ?case
  proof (cases "ignoredDir fs ig c path")
    case True
    from pathsWalkFn_ignored_dir [OF True, of g name err s] c have "r0 \<noteq> RetNil" by simp
    with True c show ?thesis by simp
  next
    case False
    show ?thesis
    proof (cases "err \<noteq> None \<or> r0 \<noteq> RetNil")
      case True
      with False c show ?thesis by auto
    next
      case F: False
      from 3 [OF c [symmetric] F] False c F show ?thesis by simp
    qed
  qed
next
  case (4 s)
  show ?case by simp
next
  case (5 child rest s)
  let ?fn = "pathsWalkFn fs ig g c"
  obtain r1 s1 where c: "walk ?fn child s = (r1, s1)"
    by (cases "walk ?fn child s")
  with 5(1) have c': "walk ?fn (pruneIgnored (ignoredDir fs ig c) child) s = (r1, s1)" by simp
  show ?case
  proof (cases "r1 = RetNil")
    case True
    with 5(2) [OF c [symmetric] True] c c' show ?thesis by simp
  next
    case False
    show ?thesis
    proof (cases "r1 = RetSkipDir \<and> (isDirNode child \<or> isBrokenNode child)")
      case True
      with 5(3) [OF c [symmetric] False True] c c' False show ?thesis by simp
    next
      case F2: False
      with c c' False show ?thesis by auto
    qed
  qed
qed

lemma pathsWalkFn_tree_update [simp]:
  "pathsWalkFn (fs\<lparr>tree := T\<rparr>) = pathsWalkFn fs"
  by (intro ext) (simp add: pathsWalkFn_def split: option.splits)

lemma addListed_tree_update [simp]:
  "addListed (fs\<lparr>tree := T\<rparr>) ig b c files st = addListed fs ig b c files st"
  by (induction files arbitrary: st) (simp_all add: Let_def split: sum.splits)

lemma GetPaths_pruned:
  assumes "GetPlandexIgnore fs currentDir = Inr ig"
  shows "GetPaths (fs\<lparr>tree := \<lambda>dir. pruneIgnored (ignoredDir fs ig currentDir) (tree fs dir)\<rparr>)
           baseDir currentDir = GetPaths fs baseDir currentDir"
proof -
  let ?fs = "fs\<lparr>tree := \<lambda>dir. pruneIgnored (ignoredDir fs ig currentDir) (tree fs dir)\<rparr>"
  have i: "GetPlandexIgnore ?fs currentDir = Inr ig"
    using assms by (simp add: GetPlandexIgnore_def Let_def split: sum.splits statResult.splits)
  have w: "walkDirectory ?fs ig g baseDir currentDir st = walkDirectory fs ig g baseDir currentDir st"
    for g st
    by (simp add: walkDirectory_def Walk_def walk_prune)
  have t: "trackedFiles ?fs ig baseDir currentDir st = trackedFiles fs ig baseDir currentDir st"
    for st
    by (simp add: trackedFiles_def split: sum.splits)
  have u: "untrackedFiles ?fs ig baseDir currentDir st = untrackedFiles fs ig baseDir currentDir st"
    for st
    by (simp add: untrackedFiles_def split: sum.splits)
  have "producers ?fs ig baseDir currentDir = producers fs ig baseDir currentDir"
    by (simp add: producers_def w t u Let_def cong: sum.case_cong if_cong)
  with i assms show ?thesis by (simp add: GetPaths_def)
qed

lemma GetPaths_not_ignored:
  assumes "GetPaths fs baseDir currentDir = Inr (m, ig)"
  shows "\<forall>k \<in> dom m. \<not> matchesIgnored ig k"
proof -
  from GetPaths_exact [OF assms] obtain st where
    all: "producers fs ig baseDir currentDir = Inr st \<and> m = paths st ++ dirs st
     \<and> dom (dirs st) =
         relDirs fs ig currentDir (pruneIgnored (ignoredDir fs ig currentDir) (tree fs baseDir))
     \<and> (IsGitRepo fs baseDir \<longrightarrow>
          (\<exists>out1 out2. gitLsFiles fs baseDir = Inr out1 \<and> gitLsFilesOthers fs baseDir = Inr out2
                \<and> dom (paths st) = listedPaths fs ig baseDir currentDir out1
                                   \<union> listedPaths fs ig baseDir currentDir out2))
     \<and> (\<not> IsGitRepo fs baseDir \<longrightarrow>
          dom (paths st) =
            relFiles fs ig currentDir (pruneIgnored (ignoredDir fs ig currentDir) (tree fs baseDir)))"
    ..
  then have m: "m = paths st ++ dirs st" and
    d: "dom (dirs st) =
         relDirs fs ig currentDir (pruneIgnored (ignoredDir fs ig currentDir) (tree fs baseDir))" and
    p: "IsGitRepo fs baseDir \<longrightarrow>
          (\<exists>out1 out2. dom (paths st) = listedPaths fs ig baseDir currentDir out1
                                   \<union> listedPaths fs ig baseDir currentDir out2)"
       "\<not> IsGitRepo fs baseDir \<longrightarrow>
          dom (paths st) =
            relFiles fs ig currentDir (pruneIgnored (ignoredDir fs ig currentDir) (tree fs baseDir))"
    by blast+
  have a: "\<forall>k \<in> dom (dirs st). \<not> matchesIgnored ig k" unfolding d by (simp add: relDirs_def)
  have b: "\<forall>k \<in> dom (paths st). \<not> matchesIgnored ig k"
  proof (cases "IsGitRepo fs baseDir")
    case True
    with p show ?thesis by (auto simp: listedPaths_def)
  next
    case False
    with p show ?thesis by (auto simp: relFiles_def)
  qed
  from a b show ?thesis unfolding m by auto
qed


text \<open>
  The callback of the raw walk tests the walk error before it looks at \<^verbatim>\<open>info\<close>, so
  it never meets a nil \<^verbatim>\<open>info\<close>: the walk of \<^verbatim>\<open>GetPaths\<close> does not panic, and an
  error of \<open>walkDirectory\<close> is always the wrapped error of the walk.
\<close>

lemma pathsWalkFn_no_panic:
  "info \<noteq> None \<or> err \<noteq> None \<Longrightarrow>
   fst (pathsWalkFn fs ig g c path info err st) \<noteq> RetPanic p"
  by (auto simp: pathsWalkFn_def split: option.splits sum.splits)

lemma walk_no_panic:
  "fst (walk (pathsWalkFn fs ig g c) t st) \<noteq> RetPanic p"
  "fst (walkNames (pathsWalkFn fs ig g c) ts st) \<noteq> RetPanic p"
proof (induction "pathsWalkFn fs ig g c" t st and "pathsWalkFn fs ig g c" ts st
    rule: walk_walkNames.induct)
  case (1 path name s)
  show ?case by (simp add: pathsWalkFn_no_panic)
next
  case (2 path err s)
  show ?case by (simp add: pathsWalkFn_no_panic)
next
  case (3 path name err children s)
  let ?fn = "pathsWalkFn fs ig g c"
  obtain r0 s0 where c: "?fn path (Some \<lparr>infoName = name, infoIsDir = True\<rparr>) err s = (r0, s0)"
    by (cases "?fn path (Some \<lparr>infoName = name, infoIsDir = True\<rparr>) err s")
  have r0: "r0 \<noteq> RetPanic p"
    using pathsWalkFn_no_panic [of "Some \<lparr>infoName = name, infoIsDir = True\<rparr>" err fs ig g c path s p] c
    by simp
  show ?case
  proof (cases "err \<noteq> None \<or> r0 \<noteq> RetNil")
    case True
    with c r0 show ?thesis by auto
  next
    case False
    with 3 [OF c [symmetric] False] c show ?thesis by simp
  qed
next
  case (4 s)
  show ?case by simp
next
  case (5 child rest s)
  let ?fn = "pathsWalkFn fs ig g c"
  obtain r1 s1 where c: "walk ?fn child s = (r1, s1)"
    by (cases "walk ?fn child s")
  with 5(1) have r1: "r1 \<noteq> RetPanic p" by simp
  show ?case
  proof (cases "r1 = RetNil")
    case True
    with 5(2) [OF c [symmetric] True] c show ?thesis by simp
  next
    case False
    show ?thesis
    proof (cases "r1 = RetSkipDir \<and> (isDirNode child \<or> isBrokenNode child)")
      case True
      with 5(3) [OF c [symmetric] False True] c False show ?thesis by simp
    next
      case F2: False
      with c r1 False show ?thesis by auto
    qed
  qed
qed

lemma walkDirectory_error:
  "walkDirectory fs ig g b c st = Inl err \<Longrightarrow>
   \<exists>e. fst (Walk (pathsWalkFn fs ig g c) (tree fs b) st) = RetErr e
       \<and> err = Errorf (''error walking directory: '' @ errMsg e)"
proof -
  assume a: "walkDirectory fs ig g b c st = Inl err"
  obtain r s1 where w: "walk (pathsWalkFn fs ig g c) (tree fs b) st = (r, s1)"
    by (cases "walk (pathsWalkFn fs ig g c) (tree fs b) st")
  from walk_no_panic(1) [of fs ig g c "tree fs b" st] w have "\<And>p. r \<noteq> RetPanic p" by simp
  with a w show ?thesis
    by (cases r) (auto simp: walkDirectory_def Walk_def)
qed

lemma demoFs_GetPaths:
  "\<exists>m. GetPaths (demoFs git) ''/p'' ''/p'' = Inr (m, Some demoIgnore)"
  by (cases git)
    (simp_all add: GetPaths_def GetPlandexIgnore_def producers_def trackedFiles_def
      untrackedFiles_def walkDirectory_def Walk_def pathsWalkFn_def demoFs_def demoTree_def
      relUnder_def demoIgnore_def matchesIgnored_def emptyMaps_def Join_def Clean_def Let_def
      Errorf_def)

lemma demoFs_returnedPaths:
  "returnedPaths (GetPaths (demoFs True) ''/p'' ''/p'') = {''.'', ''x.txt'', ''d/keep.txt''}"
  "returnedPaths (GetPaths (demoFs False) ''/p'' ''/p'') = {''.'', ''x.txt''}"
  by (simp_all add: GetPaths_def GetPlandexIgnore_def producers_def trackedFiles_def
      untrackedFiles_def walkDirectory_def Walk_def pathsWalkFn_def demoFs_def demoTree_def
      relUnder_def demoIgnore_def returnedPaths_def matchesIgnored_def emptyMaps_def Join_def
      Clean_def Let_def Errorf_def)

lemma demoFs_fields:
  "IsGitRepo (demoFs git) dir = git"
  "gitLsFiles (demoFs git) dir = Inr (''d/keep.txt'' @ [CHR 0x0A] @ ''x.txt'' @ [CHR 0x0A])"
  "gitLsFilesOthers (demoFs git) dir = Inr []"
  "tree (demoFs git) dir = demoTree"
  by (simp_all add: demoFs_def)

text \<open>
  Claim C5. When \<^verbatim>\<open>GetPaths\<close> returns a path set, every producer has completed
  without error and the result is \<^verbatim>\<open>paths\<close> with the keys of \<^verbatim>\<open>dirs\<close> merged in
  afterwards. What the walk collected in \<^verbatim>\<open>dirs\<close> are directories only: the relative
  paths of the directories it reached that do not match. For a git directory the keys
  of \<^verbatim>\<open>paths\<close> before the merge are exactly those of the tracked and the untracked
  listing, so the walk contributed no file; for another directory they are exactly the
  files the walk reached that do not match, so the walk alone contributes files and
  directories.
\<close>

theorem GetPaths_walk_contribution:
  assumes "GetPaths fs baseDir currentDir = Inr (m, ig)"
  shows "\<exists>st. producers fs ig baseDir currentDir = Inr st \<and> m = paths st ++ dirs st
     \<and> dom m = dom (paths st) \<union> dom (dirs st)
     \<and> dom (dirs st) =
         relDirs fs ig currentDir (pruneIgnored (ignoredDir fs ig currentDir) (tree fs baseDir))
     \<and> (IsGitRepo fs baseDir \<longrightarrow>
          (\<exists>out1 out2. gitLsFiles fs baseDir = Inr out1 \<and> gitLsFilesOthers fs baseDir = Inr out2
                \<and> dom (paths st) = listedPaths fs ig baseDir currentDir out1
                                   \<union> listedPaths fs ig baseDir currentDir out2))
     \<and> (\<not> IsGitRepo fs baseDir \<longrightarrow>
          dom (paths st) =
            relFiles fs ig currentDir (pruneIgnored (ignoredDir fs ig currentDir) (tree fs baseDir)))"
proof -
  from GetPaths_exact [OF assms] obtain st where
    all: "producers fs ig baseDir currentDir = Inr st \<and> m = paths st ++ dirs st
     \<and> dom (dirs st) =
         relDirs fs ig currentDir (pruneIgnored (ignoredDir fs ig currentDir) (tree fs baseDir))
     \<and> (IsGitRepo fs baseDir \<longrightarrow>
          (\<exists>out1 out2. gitLsFiles fs baseDir = Inr out1 \<and> gitLsFilesOthers fs baseDir = Inr out2
                \<and> dom (paths st) = listedPaths fs ig baseDir currentDir out1
                                   \<union> listedPaths fs ig baseDir currentDir out2))
     \<and> (\<not> IsGitRepo fs baseDir \<longrightarrow>
          dom (paths st) =
            relFiles fs ig currentDir (pruneIgnored (ignoredDir fs ig currentDir) (tree fs baseDir)))"
    ..
  then have "m = paths st ++ dirs st" by blast
  then have "dom m = dom (paths st) \<union> dom (dirs st)" by auto
  with all show ?thesis by blast
qed

theorem GetPaths_walk_contribution_witness:
  "(\<exists>m st. GetPaths (demoFs True) ''/p'' ''/p'' = Inr (m, Some demoIgnore)
      \<and> producers (demoFs True) (Some demoIgnore) ''/p'' ''/p'' = Inr st
      \<and> dom (paths st) =
          listedPaths (demoFs True) (Some demoIgnore) ''/p'' ''/p''
            (''d/keep.txt'' @ [CHR 0x0A] @ ''x.txt'' @ [CHR 0x0A])
          \<union> listedPaths (demoFs True) (Some demoIgnore) ''/p'' ''/p'' [])
   \<and> (\<exists>m st. GetPaths (demoFs False) ''/p'' ''/p'' = Inr (m, Some demoIgnore)
      \<and> producers (demoFs False) (Some demoIgnore) ''/p'' ''/p'' = Inr st
      \<and> dom (paths st) =
          relFiles (demoFs False) (Some demoIgnore) ''/p''
            (pruneIgnored (ignoredDir (demoFs False) (Some demoIgnore) ''/p'') demoTree))"
proof -
  from demoFs_GetPaths [of True] obtain m1 where
    g: "GetPaths (demoFs True) ''/p'' ''/p'' = Inr (m1, Some demoIgnore)" ..
  from demoFs_GetPaths [of False] obtain m2 where
    n: "GetPaths (demoFs False) ''/p'' ''/p'' = Inr (m2, Some demoIgnore)" ..
  from GetPaths_walk_contribution [OF g] g have a:
    "\<exists>m st. GetPaths (demoFs True) ''/p'' ''/p'' = Inr (m, Some demoIgnore)
      \<and> producers (demoFs True) (Some demoIgnore) ''/p'' ''/p'' = Inr st
      \<and> dom (paths st) =
          listedPaths (demoFs True) (Some demoIgnore) ''/p'' ''/p''
            (''d/keep.txt'' @ [CHR 0x0A] @ ''x.txt'' @ [CHR 0x0A])
          \<union> listedPaths (demoFs True) (Some demoIgnore) ''/p'' ''/p'' []"
    by (auto simp: demoFs_fields)
  from GetPaths_walk_contribution [OF n] n have b:
    "\<exists>m st. GetPaths (demoFs False) ''/p'' ''/p'' = Inr (m, Some demoIgnore)
      \<and> producers (demoFs False) (Some demoIgnore) ''/p'' ''/p'' = Inr st
      \<and> dom (paths st) =
          relFiles (demoFs False) (Some demoIgnore) ''/p''
            (pruneIgnored (ignoredDir (demoFs False) (Some demoIgnore) ''/p'') demoTree)"
    by (auto simp: demoFs_fields)
  from a b show ?thesis by blast
qed

text \<open>
  Claim C6 as stated fails for a git directory. In the concrete project the directory
  \<^verbatim>\<open>d\<close> is ignored and \<^verbatim>\<open>d/keep.txt\<close>, a file below it that the matcher does not
  match, is tracked: the tracked listing puts it into the returned path set. Without
  git the same file is not returned.
\<close>

theorem ignored_dir_descendant_returned:
  "''d/keep.txt'' \<in> returnedPaths (GetPaths (demoFs True) ''/p'' ''/p'')
   \<and> ignoredDir (demoFs True) (Some demoIgnore) ''/p'' ''/p/d''
   \<and> \<not> matchesIgnored (Some demoIgnore) ''d/keep.txt''
   \<and> ''/p/d/keep.txt'' \<in> filePaths (DirNode ''/p/d'' ''d'' None
        [FileNode ''/p/d/junk.o'' ''junk.o'', FileNode ''/p/d/keep.txt'' ''keep.txt''])
   \<and> ''d/keep.txt'' \<notin> returnedPaths (GetPaths (demoFs False) ''/p'' ''/p'')"
  by (simp add: demoFs_returnedPaths)
    (simp add: ignoredDir_def demoFs_def relUnder_def matchesIgnored_def demoIgnore_def)

text \<open>
  Claim C6, amended. No key of the returned path set matches the ignore matcher,
  whichever producer put it there. The raw walk never looks below an ignored directory:
  the call returns the same when everything below the ignored directories is cut off
  the tree, and for a directory that is not under git the returned keys are exactly the
  files and directories of the tree so cut that do not match. (The lines of a git
  listing are tested one by one, by their own path.)
\<close>

theorem GetPaths_ignore_pruning:
  assumes "GetPaths fs baseDir currentDir = Inr (m, ig)"
  shows "(\<forall>k \<in> dom m. \<not> matchesIgnored ig k)
     \<and> GetPaths (fs\<lparr>tree := \<lambda>dir. pruneIgnored (ignoredDir fs ig currentDir) (tree fs dir)\<rparr>)
         baseDir currentDir = Inr (m, ig)
     \<and> (\<not> IsGitRepo fs baseDir \<longrightarrow>
          dom m =
            relFiles fs ig currentDir (pruneIgnored (ignoredDir fs ig currentDir) (tree fs baseDir))
            \<union> relDirs fs ig currentDir (pruneIgnored (ignoredDir fs ig currentDir) (tree fs baseDir)))"
proof -
  from assms have i: "GetPlandexIgnore fs currentDir = Inr ig"
    by (auto simp: GetPaths_def split: sum.splits)
  from GetPaths_exact [OF assms] obtain st where
    all: "producers fs ig baseDir currentDir = Inr st \<and> m = paths st ++ dirs st
     \<and> dom (dirs st) =
         relDirs fs ig currentDir (pruneIgnored (ignoredDir fs ig currentDir) (tree fs baseDir))
     \<and> (IsGitRepo fs baseDir \<longrightarrow>
          (\<exists>out1 out2. gitLsFiles fs baseDir = Inr out1 \<and> gitLsFilesOthers fs baseDir = Inr out2
                \<and> dom (paths st) = listedPaths fs ig baseDir currentDir out1
                                   \<union> listedPaths fs ig baseDir currentDir out2))
     \<and> (\<not> IsGitRepo fs baseDir \<longrightarrow>
          dom (paths st) =
            relFiles fs ig currentDir (pruneIgnored (ignoredDir fs ig currentDir) (tree fs baseDir)))"
    ..
  then have m: "m = paths st ++ dirs st" and
    d: "dom (dirs st) =
         relDirs fs ig currentDir (pruneIgnored (ignoredDir fs ig currentDir) (tree fs baseDir))" and
    p: "\<not> IsGitRepo fs baseDir \<longrightarrow>
          dom (paths st) =
            relFiles fs ig currentDir (pruneIgnored (ignoredDir fs ig currentDir) (tree fs baseDir))"
    by blast+
  from m have "dom m = dom (paths st) \<union> dom (dirs st)" by auto
  with d p have c: "\<not> IsGitRepo fs baseDir \<longrightarrow>
          dom m =
            relFiles fs ig currentDir (pruneIgnored (ignoredDir fs ig currentDir) (tree fs baseDir))
            \<union> relDirs fs ig currentDir (pruneIgnored (ignoredDir fs ig currentDir) (tree fs baseDir))"
    by simp
  from GetPaths_not_ignored [OF assms] GetPaths_pruned [OF i, of baseDir] assms c
  show ?thesis by simp
qed

theorem GetPaths_ignore_pruning_witness:
  "\<exists>m. GetPaths (demoFs False) ''/p'' ''/p'' = Inr (m, Some demoIgnore)
      \<and> m ''x.txt'' = Some True
      \<and> \<not> matchesIgnored (Some demoIgnore) ''x.txt''
      \<and> GetPaths ((demoFs False)\<lparr>tree := \<lambda>dir.
            pruneIgnored (ignoredDir (demoFs False) (Some demoIgnore) ''/p'')
              (tree (demoFs False) dir)\<rparr>) ''/p'' ''/p'' = Inr (m, Some demoIgnore)"
proof -
  from demoFs_GetPaths [of False] obtain m where
    n: "GetPaths (demoFs False) ''/p'' ''/p'' = Inr (m, Some demoIgnore)" ..
  from demoFs_returnedPaths(2) n have "''x.txt'' \<in> dom m"
    by (simp add: returnedPaths_def)
  moreover from n have "\<forall>k \<in> dom m. m k = Some True"
    by (auto simp: GetPaths_def GetPlandexIgnore_def producers_def trackedFiles_def
      untrackedFiles_def walkDirectory_def Walk_def pathsWalkFn_def demoFs_def demoTree_def
      relUnder_def demoIgnore_def matchesIgnored_def emptyMaps_def Join_def Clean_def Let_def
      Errorf_def split: if_splits)
  ultimately have x: "m ''x.txt'' = Some True" by blast
  from GetPaths_ignore_pruning [OF n] x n \<open>''x.txt'' \<in> dom m\<close> show ?thesis by blast
qed

section \<open>Properties of the project root locator\<close>

lemma childWalkFn_permission_dir:
  "isPermission e \<Longrightarrow>
   childWalkFn fs Cwd deadline path (Some \<lparr>infoName = n, infoIsDir = True\<rparr>) (Some e) st
     = (RetSkipDir, st)"
  by (simp add: childWalkFn_def)

lemma childWalkFn_permission_file:
  "isPermission e \<Longrightarrow>
   childWalkFn fs Cwd deadline path (Some \<lparr>infoName = n, infoIsDir = False\<rparr>) (Some e) st
     = (RetNil, st)"
  by (simp add: childWalkFn_def)

lemma childWalkFn_permission_nil_info:
  "isPermission e \<Longrightarrow>
   childWalkFn fs Cwd deadline path None (Some e) st = (RetPanic NilPointerDereference, st)"
  by (simp add: childWalkFn_def)

lemma childWalkFn_other_error:
  "\<not> isPermission e \<Longrightarrow> childWalkFn fs Cwd deadline path info (Some e) st = (RetErr e, st)"
  by (simp add: childWalkFn_def)

lemma childWalkFn_deadline:
  "take 1 n \<noteq> ''.'' \<Longrightarrow> deadline \<le> ctxChecks st \<Longrightarrow>
   childWalkFn fs Cwd deadline path (Some \<lparr>infoName = n, infoIsDir = d\<rparr>) None st
     = (RetErr (Errorf ''context timeout''), st)"
  by (simp add: childWalkFn_def)

text \<open>
  Claim C8 on the code. With the entry \<^verbatim>\<open>/w/locked\<close> failing its \<^verbatim>\<open>Lstat\<close> with a
  permission error, the search under \<^verbatim>\<open>/w\<close> panics in \<^verbatim>\<open>info.IsDir()\<close> instead of
  skipping the entry and going on to \<^verbatim>\<open>/w/sub\<close>. When the same permission error
  comes from reading the names of the directory \<^verbatim>\<open>/w/locked\<close>, the entry is skipped
  and the project in \<^verbatim>\<open>/w/sub\<close> is found.
\<close>

theorem lstat_permission_error_panics:
  "GetChildProjectIdsWithPaths (childFs lstatDeniedTree) 10 ''/w'' = Panics NilPointerDereference
   \<and> GetChildProjectIdsWithPaths (childFs readdirDeniedTree) 10 ''/w''
       = Returned [(''/w/sub'', ''proj-sub'')]"
  by (simp add: GetChildProjectIdsWithPaths_def Walk_def childWalkFn_def childFs_def
      lstatDeniedTree_def readdirDeniedTree_def findPlandex_def Join_def Clean_def Let_def
      Errorf_def)

lemma parentLoop_parse_failure:
  assumes "currentDir \<noteq> ''/''"
    and "stat fs (Join [findPlandex fs currentDir, ''project.json'']) = StatOk"
    and "readFile fs (Join [findPlandex fs currentDir, ''project.json'']) = Inr bytes"
    and "unmarshalSettingsId fs bytes = None"
  shows "parentLoop fs currentDir parentProjectIds = Some (Panics UnmarshalFailed)"
  using assms by (subst parentLoop.simps) simp

lemma parentLoop_root: "parentLoop fs ''/'' parentProjectIds = Some (Returned parentProjectIds)"
  by (subst parentLoop.simps) simp

lemma GetChildProjectIdsWithPaths_deadline_passed:
  "take 1 n \<noteq> ''.'' \<Longrightarrow> tree fs Cwd = DirNode Cwd n None children \<Longrightarrow>
   GetChildProjectIdsWithPaths fs 0 Cwd = Returned []"
  by (simp add: GetChildProjectIdsWithPaths_def Walk_def childWalkFn_def Errorf_def)

text \<open>
  Claim C9 on the code. With \<^verbatim>\<open>Cwd = /a/b\<close>, no marker directory anywhere and a file
  \<^verbatim>\<open>project.json\<close> in the working directory, the search appends the pair for
  \<^verbatim>\<open>/a\<close>: \<^verbatim>\<open>findPlandex\<close> returns the empty string there, the settings path
  becomes the relative path \<^verbatim>\<open>project.json\<close>, and the file found is the one of the
  working directory, not one inside a marker directory of \<^verbatim>\<open>/a\<close>.
\<close>

theorem parent_search_reads_cwd_settings:
  "findPlandex parentFs ''/a'' = []
   \<and> Join [findPlandex parentFs ''/a'', ''project.json''] = ''project.json''
   \<and> GetParentProjectIdsWithPaths parentFs ''/a/b'' = Some (Returned [(''/a'', ''proj-x'')])"
  by (simp add: GetParentProjectIdsWithPaths_def parentLoop.simps findPlandex_def parentFs_def
      Join_def Clean_def Dir_def Let_def)

end
